theory Spec2Isabelle
  imports Main "HOL-Library.Multiset"
begin

section \<open>Python values\<close>

text \<open>
  The scanner of \<^verbatim>\<open>scan_bazaars.py\<close> works on what \<^verbatim>\<open>response.json()\<close> returns: Python
  values built from \<^verbatim>\<open>None\<close>, booleans, integers, strings, lists and dicts. A dict is an
  association list in insertion order (a parsed dict has distinct keys); \<^verbatim>\<open>d.get(k)\<close> and
  \<^verbatim>\<open>k in d\<close> are \<open>map_of\<close>, \<^verbatim>\<open>d.items()\<close> is the list itself. Numbers are integers:
  floating-point numbers are outside this model.
\<close>

datatype json =
    JNull
  | JBool bool
  | JInt int
  | JStr string
  | JArr "json list"
  | JObj "(string \<times> json) list"

text \<open>Python truthiness, as used by \<^verbatim>\<open>not x\<close> and \<^verbatim>\<open>x or y\<close>.\<close>

fun truthy :: "json \<Rightarrow> bool" where
  "truthy JNull = False"
| "truthy (JBool b) = b"
| "truthy (JInt i) = (i \<noteq> 0)"
| "truthy (JStr s) = (s \<noteq> [])"
| "truthy (JArr xs) = (xs \<noteq> [])"
| "truthy (JObj kvs) = (kvs \<noteq> [])"

definition py_or :: "json \<Rightarrow> json \<Rightarrow> json" where
  "py_or a b = (if truthy a then a else b)"

text \<open>The value as a dict; \<open>None\<close> where \<^verbatim>\<open>v.get(...)\<close>, \<^verbatim>\<open>v.items()\<close> or \<^verbatim>\<open>v['key']\<close>
  raises because \<open>v\<close> is not a dict.\<close>

fun as_dict :: "json \<Rightarrow> (string \<times> json) list option" where
  "as_dict (JObj kvs) = Some kvs"
| "as_dict JNull = None"
| "as_dict (JBool b) = None"
| "as_dict (JInt i) = None"
| "as_dict (JStr s) = None"
| "as_dict (JArr xs) = None"

text \<open>\<^verbatim>\<open>d.get(key, default)\<close> on a dict.\<close>

definition dict_get :: "(string \<times> json) list \<Rightarrow> string \<Rightarrow> json \<Rightarrow> json" where
  "dict_get d k dflt = (case map_of d k of Some v \<Rightarrow> v | None \<Rightarrow> dflt)"

subsection \<open>\<^verbatim>\<open>int(s)\<close> on a string\<close>

text \<open>
  \<^verbatim>\<open>int(s)\<close> strips surrounding whitespace, accepts one sign, and then decimal digits
  with single underscores between digits; anything else raises \<^verbatim>\<open>ValueError\<close>
  (\<open>None\<close>). Characters are code points below 256; digits outside ASCII and the
  interpreter's limit on the number of digits are outside this model.
\<close>

definition is_space :: "char \<Rightarrow> bool" where
  "is_space c \<longleftrightarrow> c \<in> set [CHR 0x09, CHR 0x0A, CHR 0x0B, CHR 0x0C, CHR 0x0D,
     CHR 0x1C, CHR 0x1D, CHR 0x1E, CHR 0x1F, CHR 0x20, CHR 0x85, CHR 0xA0]"

definition digit_val :: "char \<Rightarrow> nat option" where
  "digit_val = map_of
    [(CHR ''0'', 0), (CHR ''1'', 1), (CHR ''2'', 2), (CHR ''3'', 3), (CHR ''4'', 4),
     (CHR ''5'', 5), (CHR ''6'', 6), (CHR ''7'', 7), (CHR ''8'', 8), (CHR ''9'', 9)]"

text \<open>\<open>py_digits n cs\<close>: the digits read so far have value \<open>n\<close>, the last character read
  was a digit, \<open>cs\<close> is what is left.\<close>

fun py_digits :: "nat \<Rightarrow> string \<Rightarrow> nat option" where
  "py_digits n [] = Some n"
| "py_digits n [c] = (case digit_val c of Some d \<Rightarrow> Some (10 * n + d) | None \<Rightarrow> None)"
| "py_digits n (c # c' # cs) =
    (case digit_val c of
       Some d \<Rightarrow> py_digits (10 * n + d) (c' # cs)
     | None \<Rightarrow>
        (if c = CHR ''_'' \<and> digit_val c' \<noteq> None then py_digits n (c' # cs) else None))"

definition py_unsigned :: "string \<Rightarrow> nat option" where
  "py_unsigned cs =
    (case cs of
       [] \<Rightarrow> None
     | c # rest \<Rightarrow> (case digit_val c of Some d \<Rightarrow> py_digits d rest | None \<Rightarrow> None))"

definition py_strip :: "string \<Rightarrow> string" where
  "py_strip cs = rev (dropWhile is_space (rev (dropWhile is_space cs)))"

definition py_int :: "string \<Rightarrow> int option" where
  "py_int s =
    (case py_strip s of
       [] \<Rightarrow> None
     | c # rest \<Rightarrow>
        (if c = CHR ''-'' then map_option (\<lambda>n. - int n) (py_unsigned rest)
         else if c = CHR ''+'' then map_option int (py_unsigned rest)
         else map_option int (py_unsigned (c # rest))))"

subsection \<open>\<^verbatim>\<open>str(n)\<close> on an integer\<close>

fun str_of_nat :: "nat \<Rightarrow> string" where
  "str_of_nat n =
    (if n < 10 then [''0123456789'' ! n]
     else str_of_nat (n div 10) @ [''0123456789'' ! (n mod 10)])"

declare str_of_nat.simps [simp del]

definition str_of_int :: "int \<Rightarrow> string" where
  "str_of_int i = (if i < 0 then CHR ''-'' # str_of_nat (nat (- i)) else str_of_nat (nat i))"

section \<open>Data model\<close>

text \<open>An entry of \<^verbatim>\<open>self.items_cache\<close>: the dict built in \<^verbatim>\<open>_fetch_items_metadata\<close>,
  always with these five keys.\<close>

record cat_item =
  ci_id :: int
  ci_name :: json
  ci_category :: json
  ci_type :: json
  ci_market_value :: json

text \<open>A bazaar item: the dict built in \<^verbatim>\<open>_get_player_bazaar\<close>.\<close>

record listing =
  item_id :: int
  item_name :: json
  category :: json
  price :: json
  quantity :: json
  seller_id :: int
  seller_name :: json
  market_value :: json

text \<open>Rows of the four tables. A timestamp (\<^verbatim>\<open>datetime.now().isoformat()\<close>) is a reading
  of the clock, a natural number; \<open>None\<close> is SQL \<^verbatim>\<open>NULL\<close>. Rows hold the values that were
  bound; the conversions of SQLite's column affinity are outside this model.\<close>

record trader_row =
  player_id :: int
  last_checked :: "nat option"
  active :: int

record item_row =
  ir_name :: json
  ir_category :: json
  ir_type :: json
  ir_market_value :: json
  ir_last_updated :: nat

record listing_row =
  l_id :: nat
  l_item :: listing
  l_timestamp :: nat

record scan_row =
  s_id :: nat
  start_time :: nat
  end_time :: "nat option"
  traders_scanned :: nat
  items_found :: nat
  status :: string

text \<open>
  The state of a \<^verbatim>\<open>BazaarScanner\<close> and of the database as its connection sees it
  (the code never rolls back, so what a statement wrote stays). \<open>trader_ids\<close>,
  \<open>listings\<close> and \<open>scan_history\<close> are the tables in row order, \<open>items\<close> is keyed by its
  primary key. \<open>listings_seq\<close> and \<open>scan_history_seq\<close> are the \<^verbatim>\<open>AUTOINCREMENT\<close>
  counters. The last two fields record what the scanner did and are read by no
  operation: \<open>api_calls\<close> lists the players whose bazaar was requested, \<open>store_calls\<close>
  the batches \<^verbatim>\<open>_store_bazaar_items\<close> was called with, both oldest first.
\<close>

record scanner =
  items_cache :: "int \<rightharpoonup> cat_item"
  scan_id :: "nat option"
  clock :: nat
  trader_ids :: "trader_row list"
  items :: "int \<rightharpoonup> item_row"
  listings :: "listing_row list"
  listings_seq :: nat
  scan_history :: "scan_row list"
  scan_history_seq :: nat
  api_calls :: "int list"
  store_calls :: "listing list list"

text \<open>What \<^verbatim>\<open>requests.get(...)\<close>, \<^verbatim>\<open>raise_for_status()\<close> and \<^verbatim>\<open>response.json()\<close> give:
  an exception (network failure, timeout, HTTP error status, body that is not JSON)
  or the parsed body.\<close>

datatype response = RequestFailed | Body json

subsection \<open>Binding values to SQL parameters\<close>

text \<open>\<^verbatim>\<open>sqlite3\<close> binds \<^verbatim>\<open>None\<close>, integers of 64 bits (booleans among them) and strings;
  a list, a dict or a larger integer raises.\<close>

definition int64 :: "int \<Rightarrow> bool" where
  "int64 i \<longleftrightarrow> - (2 ^ 63) \<le> i \<and> i < 2 ^ 63"

fun bindable :: "json \<Rightarrow> bool" where
  "bindable JNull = True"
| "bindable (JBool b) = True"
| "bindable (JInt i) = int64 i"
| "bindable (JStr s) = True"
| "bindable (JArr xs) = False"
| "bindable (JObj kvs) = False"

text \<open>The next \<^verbatim>\<open>AUTOINCREMENT\<close> key: one more than the largest key ever used.\<close>

definition next_id :: "nat \<Rightarrow> nat list \<Rightarrow> nat" where
  "next_id seq ids = Suc (fold max ids seq)"

section \<open>The scanner\<close>

subsection \<open>\<^verbatim>\<open>_start_scan\<close>, \<^verbatim>\<open>_end_scan\<close> and the handler of \<^verbatim>\<open>scan\<close>\<close>

text \<open>Every \<^verbatim>\<open>datetime.now()\<close> reads the clock and advances it.\<close>

definition start_scan :: "scanner \<Rightarrow> scanner" where
  "start_scan s =
    (let new_id = next_id (scan_history_seq s) (map s_id (scan_history s)) in
     s\<lparr>scan_history := scan_history s @
          [\<lparr>s_id = new_id, start_time = clock s, end_time = None,
            traders_scanned = 0, items_found = 0, status = ''running''\<rparr>],
       scan_history_seq := new_id,
       scan_id := Some new_id,
       clock := Suc (clock s)\<rparr>)"

definition end_scan :: "nat \<Rightarrow> nat \<Rightarrow> scanner \<Rightarrow> scanner" where
  "end_scan n_traders n_items s =
    s\<lparr>scan_history :=
        map (\<lambda>r. if Some (s_id r) = scan_id s
                  then r\<lparr>end_time := Some (clock s), traders_scanned := n_traders,
                         items_found := n_items, status := ''completed''\<rparr>
                  else r) (scan_history s),
      clock := Suc (clock s)\<rparr>"

text \<open>The \<^verbatim>\<open>except\<close> block of \<^verbatim>\<open>scan\<close>: \<^verbatim>\<open>if self.scan_id:\<close> then
  \<^verbatim>\<open>UPDATE scan_history SET end_time = ?, status = ? WHERE id = ?\<close>.\<close>

definition fail_scan :: "scanner \<Rightarrow> scanner" where
  "fail_scan s =
    (case scan_id s of
       None \<Rightarrow> s
     | Some n \<Rightarrow>
        if n = 0 then s
        else s\<lparr>scan_history :=
                 map (\<lambda>r. if s_id r = n
                           then r\<lparr>end_time := Some (clock s), status := ''failed''\<rparr>
                           else r) (scan_history s),
               clock := Suc (clock s)\<rparr>)"

subsection \<open>\<^verbatim>\<open>_fetch_items_metadata\<close>\<close>

text \<open>\<^verbatim>\<open>INSERT OR REPLACE INTO items\<close> raises when a value cannot be bound or when
  \<^verbatim>\<open>name\<close> (\<^verbatim>\<open>NOT NULL\<close>) is \<^verbatim>\<open>None\<close>.\<close>

definition item_insertable :: "cat_item \<Rightarrow> bool" where
  "item_insertable it \<longleftrightarrow>
     int64 (ci_id it) \<and> bindable (ci_name it) \<and> ci_name it \<noteq> JNull \<and>
     bindable (ci_category it) \<and> bindable (ci_type it) \<and> bindable (ci_market_value it)"

definition make_cat_item :: "int \<Rightarrow> (string \<times> json) list \<Rightarrow> cat_item" where
  "make_cat_item i item_data =
    \<lparr>ci_id = i,
     ci_name = dict_get item_data ''name'' (JStr ''Unknown''),
     ci_category = dict_get item_data ''type'' (JStr ''Miscellaneous''),
     ci_type = py_or (py_or (dict_get item_data ''weapon_type'' (JStr []))
                            (dict_get item_data ''drug_type'' (JStr []))) (JStr []),
     ci_market_value = dict_get item_data ''market_value'' (JInt 0)\<rparr>"

text \<open>The loop over \<^verbatim>\<open>data['items'].items()\<close>. \<open>Inl\<close> is an exception, with the state at
  the moment it was raised: the entries before it are already in the cache.\<close>

fun cache_items :: "(string \<times> json) list \<Rightarrow> scanner \<Rightarrow> scanner + scanner" where
  "cache_items [] s = Inr s"
| "cache_items (e # rest) s =
    (case py_int (fst e) of
       None \<Rightarrow> Inl s
     | Some i \<Rightarrow>
        (case as_dict (snd e) of
           None \<Rightarrow> Inl s
         | Some item_data \<Rightarrow>
             (let item = make_cat_item i item_data;
                  s1 = s\<lparr>items_cache := (items_cache s)(i \<mapsto> item), clock := Suc (clock s)\<rparr>
              in if item_insertable item
                 then cache_items rest
                        (s1\<lparr>items := (items s1)(i \<mapsto>
                              \<lparr>ir_name = ci_name item, ir_category = ci_category item,
                               ir_type = ci_type item, ir_market_value = ci_market_value item,
                               ir_last_updated = clock s\<rparr>)\<rparr>)
                 else Inl s1)))"

definition fetch_items_metadata :: "scanner \<Rightarrow> response \<Rightarrow> bool \<times> scanner" where
  "fetch_items_metadata s resp =
    (case resp of
       RequestFailed \<Rightarrow> (False, s)
     | Body data \<Rightarrow>
        (case as_dict data of
           None \<Rightarrow> (False, s)
         | Some d \<Rightarrow>
             (case map_of d ''items'' of
                None \<Rightarrow> (False, s)
              | Some its \<Rightarrow>
                 (case as_dict its of
                    None \<Rightarrow> (False, s)
                  | Some entries \<Rightarrow>
                      (case cache_items entries s of
                         Inl s' \<Rightarrow> (False, s')
                       | Inr s' \<Rightarrow> (True, s'))))))"

subsection \<open>\<^verbatim>\<open>_get_player_bazaar\<close>\<close>

text \<open>The body of the loop over \<^verbatim>\<open>data['bazaar'].items()\<close>; \<open>None\<close> is an exception
  (\<^verbatim>\<open>int(item_id)\<close> fails, or the entry is not a dict and has no \<^verbatim>\<open>get\<close>).\<close>

definition bazaar_item ::
  "(int \<rightharpoonup> cat_item) \<Rightarrow> int \<Rightarrow> json \<Rightarrow> string \<times> json \<Rightarrow> listing option" where
  "bazaar_item cache pid player_name e =
    (case py_int (fst e) of
       None \<Rightarrow> None
     | Some i \<Rightarrow>
        (case as_dict (snd e) of
           None \<Rightarrow> None
         | Some item_data \<Rightarrow>
             Some \<lparr>item_id = i,
                   item_name = dict_get item_data ''name''
                     (case cache i of Some info \<Rightarrow> ci_name info | None \<Rightarrow> JStr ''Unknown Item''),
                   category = dict_get item_data ''category''
                     (case cache i of Some info \<Rightarrow> ci_category info | None \<Rightarrow> JStr ''Miscellaneous''),
                   price = dict_get item_data ''price'' (JInt 0),
                   quantity = dict_get item_data ''quantity'' (JInt 1),
                   seller_id = pid,
                   seller_name = player_name,
                   market_value = dict_get item_data ''market_value''
                     (case cache i of Some info \<Rightarrow> ci_market_value info | None \<Rightarrow> JInt 0)\<rparr>))"

fun bazaar_items ::
  "(int \<rightharpoonup> cat_item) \<Rightarrow> int \<Rightarrow> json \<Rightarrow> (string \<times> json) list \<Rightarrow> listing list option" where
  "bazaar_items cache pid player_name [] = Some []"
| "bazaar_items cache pid player_name (e # es) =
    (case bazaar_item cache pid player_name e of
       None \<Rightarrow> None
     | Some it \<Rightarrow> map_option ((#) it) (bazaar_items cache pid player_name es))"

text \<open>\<^verbatim>\<open>UPDATE trader_ids SET last_checked = ? WHERE player_id = ?\<close> and
  \<^verbatim>\<open>UPDATE trader_ids SET active = 0 WHERE player_id = ?\<close>.\<close>

definition set_last_checked :: "int \<Rightarrow> scanner \<Rightarrow> scanner" where
  "set_last_checked pid s =
    s\<lparr>trader_ids :=
        map (\<lambda>r. if player_id r = pid then r\<lparr>last_checked := Some (clock s)\<rparr> else r)
            (trader_ids s),
      clock := Suc (clock s)\<rparr>"

definition set_inactive :: "int \<Rightarrow> scanner \<Rightarrow> scanner" where
  "set_inactive pid s =
    s\<lparr>trader_ids := map (\<lambda>r. if player_id r = pid then r\<lparr>active := 0\<rparr> else r) (trader_ids s)\<rparr>"

text \<open>
  Every exception inside the \<^verbatim>\<open>try\<close> is caught and gives \<^verbatim>\<open>[]\<close>. When the request
  fails nothing has been written yet. When the body is not a dict, every path
  (\<^verbatim>\<open>'error' in data\<close> false or raising, \<^verbatim>\<open>data['error']\<close> raising) ends in \<^verbatim>\<open>[]\<close> after
  the timestamp was written; so does an \<^verbatim>\<open>error\<close> that is not a dict or has no
  \<^verbatim>\<open>code\<close>, and a \<^verbatim>\<open>bazaar\<close> that is not a dict.
\<close>

definition get_player_bazaar :: "scanner \<Rightarrow> int \<Rightarrow> response \<Rightarrow> scanner \<times> listing list" where
  "get_player_bazaar s0 pid resp =
    (let s = s0\<lparr>api_calls := api_calls s0 @ [pid]\<rparr> in
     case resp of
       RequestFailed \<Rightarrow> (s, [])
     | Body data \<Rightarrow>
        (let s1 = set_last_checked pid s in
         case as_dict data of
           None \<Rightarrow> (s1, [])
         | Some d \<Rightarrow>
             (case map_of d ''error'' of
                Some err \<Rightarrow>
                  (case as_dict err of
                     None \<Rightarrow> (s1, [])
                   | Some e \<Rightarrow>
                       (case map_of e ''code'' of
                          None \<Rightarrow> (s1, [])
                        | Some c \<Rightarrow> if c = JInt 6 then (set_inactive pid s1, []) else (s1, [])))
              | None \<Rightarrow>
                  (case map_of d ''bazaar'' of
                     None \<Rightarrow> (s1, [])
                   | Some b \<Rightarrow>
                      if \<not> truthy b then (s1, [])
                      else
                        (let player_name = dict_get d ''name'' (JStr (''Player '' @ str_of_int pid)) in
                         case as_dict b of
                           None \<Rightarrow> (s1, [])
                         | Some entries \<Rightarrow>
                             (case bazaar_items (items_cache s1) pid player_name entries of
                                None \<Rightarrow> (s1, [])
                              | Some its \<Rightarrow> (s1, its)))))))"

subsection \<open>\<^verbatim>\<open>_store_bazaar_items\<close>\<close>

text \<open>\<^verbatim>\<open>INSERT INTO listings\<close> raises when a value cannot be bound or when \<^verbatim>\<open>item_name\<close>,
  \<^verbatim>\<open>price\<close> or \<^verbatim>\<open>quantity\<close> (\<^verbatim>\<open>NOT NULL\<close>) is \<^verbatim>\<open>None\<close>.\<close>

definition listing_insertable :: "listing \<Rightarrow> bool" where
  "listing_insertable it \<longleftrightarrow>
     int64 (item_id it) \<and> bindable (item_name it) \<and> item_name it \<noteq> JNull \<and>
     bindable (category it) \<and> bindable (price it) \<and> price it \<noteq> JNull \<and>
     bindable (quantity it) \<and> quantity it \<noteq> JNull \<and> int64 (seller_id it) \<and>
     bindable (seller_name it) \<and> bindable (market_value it)"

text \<open>The loop of inserts. \<open>Inl\<close> is the exception of a failing insert, with the state it
  leaves: the rows deleted and inserted before it stay written, and the handler of
  \<^verbatim>\<open>scan\<close> commits them.\<close>

fun insert_listings :: "nat \<Rightarrow> listing list \<Rightarrow> scanner \<Rightarrow> scanner + scanner" where
  "insert_listings timestamp [] s = Inr s"
| "insert_listings timestamp (it # its) s =
    (if listing_insertable it
     then (let new_id = next_id (listings_seq s) (map l_id (listings s)) in
           insert_listings timestamp its
             (s\<lparr>listings := listings s @ [\<lparr>l_id = new_id, l_item = it, l_timestamp = timestamp\<rparr>],
                listings_seq := new_id\<rparr>))
     else Inl s)"

definition store_bazaar_items :: "scanner \<Rightarrow> listing list \<Rightarrow> scanner + scanner" where
  "store_bazaar_items s its =
    (let timestamp = clock s;
         s1 = s\<lparr>clock := Suc (clock s), store_calls := store_calls s @ [its]\<rparr>;
         s2 = (if its \<noteq> []
               then s1\<lparr>listings :=
                        filter (\<lambda>r. seller_id (l_item r) \<notin> set (map seller_id its)) (listings s1)\<rparr>
               else s1)
     in insert_listings timestamp its s2)"

subsection \<open>\<^verbatim>\<open>scan\<close>\<close>

text \<open>\<^verbatim>\<open>SELECT player_id FROM trader_ids WHERE active = 1 ORDER BY last_checked ASC NULLS
  FIRST [LIMIT ?]\<close>. Rows with equal \<^verbatim>\<open>last_checked\<close> keep their table order (SQL leaves
  their order open). \<^verbatim>\<open>if limit:\<close> is false for \<^verbatim>\<open>None\<close> and for 0; a negative
  \<^verbatim>\<open>LIMIT\<close> is no limit in SQLite.\<close>

definition select_traders :: "int option \<Rightarrow> scanner \<Rightarrow> int list" where
  "select_traders limit s =
    (let rows = sort_key (\<lambda>r. case last_checked r of None \<Rightarrow> 0 | Some t \<Rightarrow> Suc t)
                  (filter (\<lambda>r. active r = 1) (trader_ids s));
         ids = map player_id rows
     in case limit of
          None \<Rightarrow> ids
        | Some n \<Rightarrow> if n = 0 then ids else if n < 0 then ids else take (nat n) ids)"

text \<open>The \<^verbatim>\<open>for\<close> loop of \<^verbatim>\<open>scan\<close> over the remaining players, with its local variables
  \<^verbatim>\<open>traders_scanned\<close>, \<^verbatim>\<open>items_found\<close> and \<^verbatim>\<open>all_items\<close>. \<open>Raised\<close> is an exception
  leaving the loop, with the state and the two counters at that moment.
  \<^verbatim>\<open>time.sleep\<close> changes nothing that is modelled.\<close>

datatype loop_result =
    Finished scanner nat nat "listing list"
  | Raised scanner nat nat

fun scan_loop ::
  "(int \<Rightarrow> response) \<Rightarrow> int list \<Rightarrow> scanner \<Rightarrow> nat \<Rightarrow> nat \<Rightarrow> listing list \<Rightarrow> loop_result" where
  "scan_loop api [] s n_traders n_items all_items = Finished s n_traders n_items all_items"
| "scan_loop api (pid # rest) s n_traders n_items all_items =
    (case get_player_bazaar s pid (api pid) of
       (s1, its) \<Rightarrow>
         (let all_items1 = all_items @ its;
              n_items1 = n_items + length its;
              n_traders1 = n_traders + 1
          in if length all_items1 \<ge> 100
             then (case store_bazaar_items s1 all_items1 of
                     Inl s2 \<Rightarrow> Raised s2 n_traders1 n_items1
                   | Inr s2 \<Rightarrow> scan_loop api rest s2 n_traders1 n_items1 [])
             else scan_loop api rest s1 n_traders1 n_items1 all_items1))"

text \<open>\<open>scan api catalog limit s\<close>: \<open>catalog\<close> is the answer of the items endpoint, \<open>api p\<close>
  the answer of the bazaar endpoint for player \<open>p\<close>. The result is the returned
  boolean and the state afterwards.\<close>

definition scan ::
  "(int \<Rightarrow> response) \<Rightarrow> response \<Rightarrow> int option \<Rightarrow> scanner \<Rightarrow> bool \<times> scanner" where
  "scan api catalog limit s =
    (case fetch_items_metadata s catalog of
       (False, s1) \<Rightarrow> (False, s1)
     | (True, s1) \<Rightarrow>
        (let s2 = start_scan s1;
             ids = select_traders limit s2
         in if ids = [] then (False, end_scan 0 0 s2)
            else
              (case scan_loop api ids s2 0 0 [] of
                 Raised s3 n_traders n_items \<Rightarrow> (False, fail_scan s3)
               | Finished s3 n_traders n_items all_items \<Rightarrow>
                  (case (if all_items \<noteq> [] then store_bazaar_items s3 all_items else Inr s3) of
                     Inl s4 \<Rightarrow> (False, fail_scan s4)
                   | Inr s4 \<Rightarrow> (True, end_scan n_traders n_items s4)))))"

subsection \<open>Reading results\<close>

text \<open>The state an operation leaves, whether it returned or raised, and the parts of the
  loop's result.\<close>

definition state_of :: "scanner + scanner \<Rightarrow> scanner" where
  "state_of r = (case r of Inl s \<Rightarrow> s | Inr s \<Rightarrow> s)"

fun result_state :: "loop_result \<Rightarrow> scanner" where
  "result_state (Finished s n_traders n_items all_items) = s"
| "result_state (Raised s n_traders n_items) = s"

fun result_counts :: "loop_result \<Rightarrow> nat \<times> nat" where
  "result_counts (Finished s n_traders n_items all_items) = (n_traders, n_items)"
| "result_counts (Raised s n_traders n_items) = (n_traders, n_items)"

fun raised :: "loop_result \<Rightarrow> bool" where
  "raised (Finished s n_traders n_items all_items) = False"
| "raised (Raised s n_traders n_items) = True"

text \<open>The listings stored for a seller, in table order: whole rows, and the rows without
  their synthetic key and timestamp.\<close>

definition seller_rows :: "scanner \<Rightarrow> int \<Rightarrow> listing_row list" where
  "seller_rows s pid = filter (\<lambda>r. seller_id (l_item r) = pid) (listings s)"

definition seller_listings :: "scanner \<Rightarrow> int \<Rightarrow> listing list" where
  "seller_listings s pid = map l_item (seller_rows s pid)"

section \<open>Concrete scanners and responses\<close>

text \<open>A scanner just constructed on an empty database.\<close>

definition fresh_scanner :: scanner where
  "fresh_scanner =
    \<lparr>items_cache = Map.empty, scan_id = None, clock = 0, trader_ids = [],
     items = Map.empty, listings = [], listings_seq = 0, scan_history = [],
     scan_history_seq = 0, api_calls = [], store_calls = []\<rparr>"

definition bare_entry_response :: response where
  "bare_entry_response =
     Body (JObj [(''bazaar'', JObj [(''206'', JObj [(''name'', JStr ''Xanax'')])])])"


definition xanax_catalog :: response where
  "xanax_catalog =
     Body (JObj [(''items'', JObj [(''100'',
       JObj [(''name'', JStr ''Xanax''), (''type'', JStr ''Drug''), (''market_value'', JInt 850)])])])"

definition xanax_bazaar :: response where
  "xanax_bazaar =
     Body (JObj [(''bazaar'', JObj [(''100'', JObj [(''price'', JInt 900), (''quantity'', JInt 5)])])])"

definition broken_catalog :: response where
  "broken_catalog =
     Body (JObj [(''items'', JObj
       [(''100'', JObj [(''name'', JStr ''Xanax''), (''type'', JStr ''Drug''), (''market_value'', JInt 850)]),
        (''x'', JObj [(''name'', JStr ''Vicodin'')])])])"

definition two_traders :: scanner where
  "two_traders = fresh_scanner
     \<lparr>trader_ids := [\<lparr>player_id = 1111111, last_checked = None, active = 1\<rparr>,
                     \<lparr>player_id = 2222222, last_checked = None, active = 1\<rparr>]\<rparr>"

definition not_found_response :: response where
  "not_found_response = Body (JObj [(''error'', JObj [(''code'', JInt 6), (''error'', JStr ''Incorrect ID'')])])"

definition no_answer :: "int \<Rightarrow> response" where
  "no_answer pid = RequestFailed"

definition xanax_api :: "int \<Rightarrow> response" where
  "xanax_api pid = (if pid = 1111111 then xanax_bazaar else not_found_response)"

text \<open>One trader whose bazaar has a hundred entries, all with \<^verbatim>\<open>price: null\<close>.\<close>

definition one_trader :: scanner where
  "one_trader = fresh_scanner
     \<lparr>trader_ids := [\<lparr>player_id = 1111111, last_checked = None, active = 1\<rparr>]\<rparr>"

definition null_price_entry :: json where
  "null_price_entry = JObj [(''price'', JNull), (''quantity'', JInt 1)]"

definition hundred_entries :: "(string \<times> json) list" where
  "hundred_entries =
     [
      (''1'', null_price_entry), (''2'', null_price_entry), (''3'', null_price_entry), (''4'', null_price_entry), (''5'', null_price_entry), (''6'', null_price_entry), (''7'', null_price_entry), (''8'', null_price_entry), (''9'', null_price_entry), (''10'', null_price_entry),
      (''11'', null_price_entry), (''12'', null_price_entry), (''13'', null_price_entry), (''14'', null_price_entry), (''15'', null_price_entry), (''16'', null_price_entry), (''17'', null_price_entry), (''18'', null_price_entry), (''19'', null_price_entry), (''20'', null_price_entry),
      (''21'', null_price_entry), (''22'', null_price_entry), (''23'', null_price_entry), (''24'', null_price_entry), (''25'', null_price_entry), (''26'', null_price_entry), (''27'', null_price_entry), (''28'', null_price_entry), (''29'', null_price_entry), (''30'', null_price_entry),
      (''31'', null_price_entry), (''32'', null_price_entry), (''33'', null_price_entry), (''34'', null_price_entry), (''35'', null_price_entry), (''36'', null_price_entry), (''37'', null_price_entry), (''38'', null_price_entry), (''39'', null_price_entry), (''40'', null_price_entry),
      (''41'', null_price_entry), (''42'', null_price_entry), (''43'', null_price_entry), (''44'', null_price_entry), (''45'', null_price_entry), (''46'', null_price_entry), (''47'', null_price_entry), (''48'', null_price_entry), (''49'', null_price_entry), (''50'', null_price_entry),
      (''51'', null_price_entry), (''52'', null_price_entry), (''53'', null_price_entry), (''54'', null_price_entry), (''55'', null_price_entry), (''56'', null_price_entry), (''57'', null_price_entry), (''58'', null_price_entry), (''59'', null_price_entry), (''60'', null_price_entry),
      (''61'', null_price_entry), (''62'', null_price_entry), (''63'', null_price_entry), (''64'', null_price_entry), (''65'', null_price_entry), (''66'', null_price_entry), (''67'', null_price_entry), (''68'', null_price_entry), (''69'', null_price_entry), (''70'', null_price_entry),
      (''71'', null_price_entry), (''72'', null_price_entry), (''73'', null_price_entry), (''74'', null_price_entry), (''75'', null_price_entry), (''76'', null_price_entry), (''77'', null_price_entry), (''78'', null_price_entry), (''79'', null_price_entry), (''80'', null_price_entry),
      (''81'', null_price_entry), (''82'', null_price_entry), (''83'', null_price_entry), (''84'', null_price_entry), (''85'', null_price_entry), (''86'', null_price_entry), (''87'', null_price_entry), (''88'', null_price_entry), (''89'', null_price_entry), (''90'', null_price_entry),
      (''91'', null_price_entry), (''92'', null_price_entry), (''93'', null_price_entry), (''94'', null_price_entry), (''95'', null_price_entry), (''96'', null_price_entry), (''97'', null_price_entry), (''98'', null_price_entry), (''99'', null_price_entry), (''100'', null_price_entry)]"

definition crowded_api :: "int \<Rightarrow> response" where
  "crowded_api pid = Body (JObj [(''bazaar'', JObj hundred_entries), (''name'', JStr ''Duke'')])"

definition rate_limited_response :: response where
  "rate_limited_response =
     Body (JObj [(''error'', JObj [(''code'', JInt 5), (''error'', JStr ''Too many requests'')])])"

definition error_api :: "int \<Rightarrow> response" where
  "error_api pid = (if pid = 2222222 then not_found_response else rate_limited_response)"

section \<open>Facts about the operations\<close>

lemma as_dict_Some [simp]: "as_dict v = Some d \<longleftrightarrow> v = JObj d"
  by (cases v) auto

lemmas py_defs = py_int_def py_strip_def is_space_def py_unsigned_def digit_val_def str_of_int_def str_of_nat.simps dict_get_def py_or_def int64_def next_id_def
lemmas scanner_defs = scan_def fetch_items_metadata_def make_cat_item_def item_insertable_def start_scan_def end_scan_def
  fail_scan_def bazaar_item_def set_last_checked_def set_inactive_def get_player_bazaar_def listing_insertable_def store_bazaar_items_def
  select_traders_def

lemma get_player_bazaar_unchanged:
  "items_cache (fst (get_player_bazaar s pid resp)) = items_cache s"
  "listings (fst (get_player_bazaar s pid resp)) = listings s"
  "listings_seq (fst (get_player_bazaar s pid resp)) = listings_seq s"
  "scan_history (fst (get_player_bazaar s pid resp)) = scan_history s"
  "scan_id (fst (get_player_bazaar s pid resp)) = scan_id s"
  "store_calls (fst (get_player_bazaar s pid resp)) = store_calls s"
  "api_calls (fst (get_player_bazaar s pid resp)) = api_calls s @ [pid]"
  "scan_history_seq (fst (get_player_bazaar s pid resp)) = scan_history_seq s"
  "items (fst (get_player_bazaar s pid resp)) = items s"
  by (simp_all add: get_player_bazaar_def set_last_checked_def set_inactive_def Let_def
        split: response.split option.split)

lemma get_player_bazaar_nonempty:
  assumes "snd (get_player_bazaar s pid resp) \<noteq> []"
  shows "\<exists>d entries. resp = Body (JObj d) \<and> map_of d ''error'' = None \<and>
           map_of d ''bazaar'' = Some (JObj entries) \<and>
           bazaar_items (items_cache s) pid
             (dict_get d ''name'' (JStr (''Player '' @ str_of_int pid))) entries
           = Some (snd (get_player_bazaar s pid resp))"
  using assms
  by (auto simp add: get_player_bazaar_def set_last_checked_def Let_def
        split: response.splits option.splits if_splits)

lemma bazaar_items_nth:
  "bazaar_items cache pid pname es = Some ls \<Longrightarrow>
     length ls = length es \<and> (\<forall>i<length es. bazaar_item cache pid pname (es ! i) = Some (ls ! i))"
proof (induction es arbitrary: ls)
  case Nil
  then show ?case by simp
next
  case (Cons e es)
  then obtain it rest where e: "bazaar_item cache pid pname e = Some it"
    and rest: "bazaar_items cache pid pname es = Some rest" and ls: "ls = it # rest"
    by (auto split: option.splits)
  from Cons.IH [OF rest] e ls show ?case
    by (auto simp: nth_Cons split: nat.splits)
qed

lemma bazaar_items_seller:
  "bazaar_items cache pid pname es = Some ls \<Longrightarrow> x \<in> set ls \<Longrightarrow> seller_id x = pid"
  by (induction es arbitrary: ls) (auto simp: bazaar_item_def split: option.splits)

lemma get_player_bazaar_seller:
  "x \<in> set (snd (get_player_bazaar s pid resp)) \<Longrightarrow> seller_id x = pid"
proof -
  assume x: "x \<in> set (snd (get_player_bazaar s pid resp))"
  then have "snd (get_player_bazaar s pid resp) \<noteq> []" by auto
  from get_player_bazaar_nonempty [OF this] x show ?thesis
    by (auto dest: bazaar_items_seller)
qed

lemma get_player_bazaar_cache_only:
  "items_cache s = items_cache s' \<Longrightarrow>
     snd (get_player_bazaar s pid resp) = snd (get_player_bazaar s' pid resp)"
  by (simp add: get_player_bazaar_def set_last_checked_def set_inactive_def Let_def
        split: response.split option.split)

lemma bazaar_item_fields:
  assumes "bazaar_item cache pid pname (k, JObj item_data) = Some it"
  shows "\<exists>n. py_int k = Some n \<and> item_id it = n \<and>
           item_name it = dict_get item_data ''name''
             (case cache n of Some info \<Rightarrow> ci_name info | None \<Rightarrow> JStr ''Unknown Item'') \<and>
           category it = dict_get item_data ''category''
             (case cache n of Some info \<Rightarrow> ci_category info | None \<Rightarrow> JStr ''Miscellaneous'') \<and>
           market_value it = dict_get item_data ''market_value''
             (case cache n of Some info \<Rightarrow> ci_market_value info | None \<Rightarrow> JInt 0)"
    and "price it = dict_get item_data ''price'' (JInt 0)"
    and "quantity it = dict_get item_data ''quantity'' (JInt 1)"
    and "seller_id it = pid" and "seller_name it = pname"
  using assms by (cases "py_int k"; auto simp: bazaar_item_def)+

lemma get_player_bazaar_entry:
  assumes "resp = Body (JObj d)" and "map_of d ''bazaar'' = Some (JObj entries)"
    and "snd (get_player_bazaar s pid resp) = ls" and "ls \<noteq> []"
    and "i < length entries"
  shows "length ls = length entries"
    and "\<exists>pname. bazaar_item (items_cache s) pid pname (entries ! i) = Some (ls ! i)"
proof -
  from assms(3,4) have "snd (get_player_bazaar s pid resp) \<noteq> []" by simp
  from get_player_bazaar_nonempty [OF this] assms(1,2,3)
  obtain pname where "bazaar_items (items_cache s) pid pname entries = Some ls"
    by auto
  from bazaar_items_nth [OF this] assms(5)
  show "length ls = length entries"
    and "\<exists>pname. bazaar_item (items_cache s) pid pname (entries ! i) = Some (ls ! i)"
    by auto
qed


section \<open>Defaults for price and quantity\<close>

text \<open>
  C10. When a fetch returns listings, the \<open>i\<close>-th listing comes from the \<open>i\<close>-th bazaar
  entry of the response; if that entry has no \<^verbatim>\<open>price\<close> field the listing's price is 0,
  and if it has no \<^verbatim>\<open>quantity\<close> field the listing's quantity is 1.
\<close>

theorem bazaar_entry_price_quantity_defaults:
  assumes "resp = Body (JObj d)" and "map_of d ''bazaar'' = Some (JObj entries)"
    and "snd (get_player_bazaar s pid resp) = ls" and "ls \<noteq> []"
    and "i < length entries" and "entries ! i = (k, JObj item_data)"
  shows "length ls = length entries \<and>
         (map_of item_data ''price'' = None \<longrightarrow> price (ls ! i) = JInt 0) \<and>
         (map_of item_data ''quantity'' = None \<longrightarrow> quantity (ls ! i) = JInt 1)"
proof -
  from get_player_bazaar_entry [OF assms(1-5)] assms(6)
  obtain pname where len: "length ls = length entries"
    and it: "bazaar_item (items_cache s) pid pname (k, JObj item_data) = Some (ls ! i)"
    by auto
  from bazaar_item_fields(2,3) [OF it] len show ?thesis
    by (simp add: dict_get_def)
qed

theorem bazaar_entry_price_quantity_defaults_witness:
  "snd (get_player_bazaar fresh_scanner 1111111 bare_entry_response) \<noteq> [] \<and>
   map_of [(''name'', JStr ''Xanax'')] ''price'' = None \<and>
   map_of [(''name'', JStr ''Xanax'')] ''quantity'' = None \<and>
   price (snd (get_player_bazaar fresh_scanner 1111111 bare_entry_response) ! 0) = JInt 0 \<and>
   quantity (snd (get_player_bazaar fresh_scanner 1111111 bare_entry_response) ! 0) = JInt 1"
proof -
  have ne: "snd (get_player_bazaar fresh_scanner 1111111 bare_entry_response) \<noteq> []"
    by (simp add: bare_entry_response_def fresh_scanner_def get_player_bazaar_def
          set_last_checked_def bazaar_item_def py_defs)
  from bazaar_entry_price_quantity_defaults [of bare_entry_response
      "[(''bazaar'', JObj [(''206'', JObj [(''name'', JStr ''Xanax'')])])]"
      "[(''206'', JObj [(''name'', JStr ''Xanax'')])]" fresh_scanner 1111111 _ 0
      "''206''" "[(''name'', JStr ''Xanax'')]"] ne
  show ?thesis by (simp add: bare_entry_response_def)
qed

lemma cache_items_frame:
  assumes "cache_items es s = Inl s' \<or> cache_items es s = Inr s'"
  shows "\<exists>c k i. s' = s\<lparr>items_cache := c, clock := k, items := i\<rparr>"
  using assms
proof (induction es arbitrary: s)
  case Nil
  then have "s' = s\<lparr>items_cache := items_cache s, clock := clock s, items := items s\<rparr>" by simp
  then show ?case by blast
next
  case (Cons e es)
  show ?case
  proof (cases "py_int (fst e)")
    case None
    with Cons.prems have "s' = s\<lparr>items_cache := items_cache s, clock := clock s, items := items s\<rparr>" by simp
    then show ?thesis by blast
  next
    case (Some n)
    show ?thesis
    proof (cases "as_dict (snd e)")
      case None
      with Some Cons.prems
      have "s' = s\<lparr>items_cache := items_cache s, clock := clock s, items := items s\<rparr>"
        by simp
      then show ?thesis by blast
    next
      case d: (Some d)
      let ?s1 = "s\<lparr>items_cache := (items_cache s)(n \<mapsto> make_cat_item n d), clock := Suc (clock s)\<rparr>"
      show ?thesis
      proof (cases "item_insertable (make_cat_item n d)")
        case False
        with Some d Cons.prems have "s' = ?s1" by (simp add: Let_def)
        then have "s' = s\<lparr>items_cache := (items_cache s)(n \<mapsto> make_cat_item n d), clock := Suc (clock s), items := items s\<rparr>"
          by simp
        then show ?thesis by blast
      next
        case True
        let ?s2 = "?s1\<lparr>items := (items ?s1)(n \<mapsto>
                              \<lparr>ir_name = ci_name (make_cat_item n d), ir_category = ci_category (make_cat_item n d),
                               ir_type = ci_type (make_cat_item n d), ir_market_value = ci_market_value (make_cat_item n d),
                               ir_last_updated = clock s\<rparr>)\<rparr>"
        from True Some d Cons.prems
        have "cache_items es ?s2 = Inl s' \<or> cache_items es ?s2 = Inr s'"
          by (simp add: Let_def)
        from Cons.IH [OF this] obtain c k i where "s' = ?s2\<lparr>items_cache := c, clock := k, items := i\<rparr>"
          by blast
        then have "s' = s\<lparr>items_cache := c, clock := k, items := i\<rparr>" by simp
        then show ?thesis by blast
      qed
    qed
  qed
qed

lemma fetch_items_metadata_frame:
  "\<exists>c k i. snd (fetch_items_metadata s resp) = s\<lparr>items_cache := c, clock := k, items := i\<rparr>"
proof -
  have same: "\<exists>c k i. s = s\<lparr>items_cache := c, clock := k, items := i\<rparr>"
  proof -
    have "s = s\<lparr>items_cache := items_cache s, clock := clock s, items := items s\<rparr>" by simp
    then show ?thesis by blast
  qed
  show ?thesis
    using same cache_items_frame [of _ s]
    by (simp add: fetch_items_metadata_def split: response.split option.split sum.split)
       blast
qed

lemma fetch_items_metadata_unchanged:
  "trader_ids (snd (fetch_items_metadata s resp)) = trader_ids s"
  "listings (snd (fetch_items_metadata s resp)) = listings s"
  "listings_seq (snd (fetch_items_metadata s resp)) = listings_seq s"
  "scan_history (snd (fetch_items_metadata s resp)) = scan_history s"
  "scan_history_seq (snd (fetch_items_metadata s resp)) = scan_history_seq s"
  "scan_id (snd (fetch_items_metadata s resp)) = scan_id s"
  "api_calls (snd (fetch_items_metadata s resp)) = api_calls s"
  "store_calls (snd (fetch_items_metadata s resp)) = store_calls s"
  using fetch_items_metadata_frame [of s resp] by auto

section \<open>The last-checked timestamp\<close>

lemma as_dict_None [simp]: "as_dict v = None \<longleftrightarrow> (\<forall>d. v \<noteq> JObj d)"
  by (cases v) auto

lemma get_player_bazaar_request_failed:
  "get_player_bazaar s pid RequestFailed = (s\<lparr>api_calls := api_calls s @ [pid]\<rparr>, [])"
  by (simp add: get_player_bazaar_def)

lemma get_player_bazaar_not_found:
  "map_of d ''error'' = Some (JObj e) \<Longrightarrow> map_of e ''code'' = Some (JInt 6) \<Longrightarrow>
   get_player_bazaar s pid (Body (JObj d)) =
     (set_inactive pid (set_last_checked pid (s\<lparr>api_calls := api_calls s @ [pid]\<rparr>)), [])"
  by (simp add: get_player_bazaar_def)

lemma get_player_bazaar_other_error:
  "map_of d ''error'' = Some err \<Longrightarrow>
   \<forall>e. err = JObj e \<longrightarrow> map_of e ''code'' \<noteq> Some (JInt 6) \<Longrightarrow>
   get_player_bazaar s pid (Body (JObj d)) =
     (set_last_checked pid (s\<lparr>api_calls := api_calls s @ [pid]\<rparr>), [])"
  by (auto simp add: get_player_bazaar_def Let_def split: option.splits)

lemma get_player_bazaar_state_cases:
  "fst (get_player_bazaar s pid (Body data)) =
     set_last_checked pid (s\<lparr>api_calls := api_calls s @ [pid]\<rparr>)
   \<or>
   fst (get_player_bazaar s pid (Body data)) =
     set_inactive pid (set_last_checked pid (s\<lparr>api_calls := api_calls s @ [pid]\<rparr>))"
  by (simp add: get_player_bazaar_def Let_def split: option.split)

lemma set_last_checked_rows:
  "\<forall>r \<in> set (trader_ids (set_last_checked pid s)).
     player_id r = pid \<longrightarrow> last_checked r = Some (clock s)"
  "map player_id (trader_ids (set_last_checked pid s)) = map player_id (trader_ids s)"
  "map active (trader_ids (set_last_checked pid s)) = map active (trader_ids s)"
  by (simp_all add: set_last_checked_def del: if_image_distrib)

lemma set_inactive_rows:
  "\<forall>r \<in> set (trader_ids (set_inactive pid s)). player_id r = pid \<longrightarrow> active r = 0"
  "map player_id (trader_ids (set_inactive pid s)) = map player_id (trader_ids s)"
  "map last_checked (trader_ids (set_inactive pid s)) = map last_checked (trader_ids s)"
  by (simp_all add: set_inactive_def del: if_image_distrib)

lemma set_inactive_last_checked:
  assumes "\<forall>r \<in> set (trader_ids s). player_id r = pid \<longrightarrow> last_checked r = t"
  shows "\<forall>r \<in> set (trader_ids (set_inactive pid s)). player_id r = pid \<longrightarrow> last_checked r = t"
  using assms by (simp add: set_inactive_def del: if_image_distrib)

text \<open>
  C4, as the code has it. A fetch whose request returns a parsed body, whatever the body
  says, writes the current time as the last-checked timestamp of the player's row. A
  fetch whose request fails (network failure, timeout, HTTP error, unreadable body)
  leaves the table of traders as it was.
\<close>

theorem last_checked_updated_on_response:
  "(\<forall>r \<in> set (trader_ids (fst (get_player_bazaar s pid (Body data)))).
      player_id r = pid \<longrightarrow> last_checked r = Some (clock s)) \<and>
   map player_id (trader_ids (fst (get_player_bazaar s pid (Body data)))) =
     map player_id (trader_ids s) \<and>
   trader_ids (fst (get_player_bazaar s pid RequestFailed)) = trader_ids s"
proof -
  let ?s = "s\<lparr>api_calls := api_calls s @ [pid]\<rparr>"
  have rf: "trader_ids (fst (get_player_bazaar s pid RequestFailed)) = trader_ids s"
    by (simp add: get_player_bazaar_request_failed)
  have a: "\<forall>r \<in> set (trader_ids (set_last_checked pid ?s)).
      player_id r = pid \<longrightarrow> last_checked r = Some (clock s)"
    using set_last_checked_rows(1) [of pid ?s] by simp
  have b: "\<forall>r \<in> set (trader_ids (set_inactive pid (set_last_checked pid ?s))).
      player_id r = pid \<longrightarrow> last_checked r = Some (clock s)"
    by (rule set_inactive_last_checked [OF a])
  have c: "map player_id (trader_ids (set_last_checked pid ?s)) = map player_id (trader_ids s)"
    by (simp add: set_last_checked_rows(2))
  have d: "map player_id (trader_ids (set_inactive pid (set_last_checked pid ?s))) =
      map player_id (trader_ids s)"
    by (simp add: set_inactive_rows(2) set_last_checked_rows(2))
  from get_player_bazaar_state_cases [of s pid data] show ?thesis
  proof
    assume "fst (get_player_bazaar s pid (Body data)) = set_last_checked pid ?s"
    with a c rf show ?thesis by simp
  next
    assume "fst (get_player_bazaar s pid (Body data)) = set_inactive pid (set_last_checked pid ?s)"
    with b d rf show ?thesis by simp
  qed
qed

theorem last_checked_updated_on_response_witness:
  "\<lparr>player_id = 1111111, last_checked = Some 0, active = 0\<rparr>
     \<in> set (trader_ids (fst (get_player_bazaar two_traders 1111111 not_found_response))) \<and>
   last_checked \<lparr>player_id = 1111111, last_checked = Some 0, active = 0\<rparr> = Some (clock two_traders)"
proof -
  have m: "\<lparr>player_id = 1111111, last_checked = Some 0, active = 0\<rparr>
     \<in> set (trader_ids (fst (get_player_bazaar two_traders 1111111 not_found_response)))"
    by (simp add: two_traders_def fresh_scanner_def not_found_response_def
          get_player_bazaar_def set_last_checked_def set_inactive_def)
  have "\<forall>r \<in> set (trader_ids (fst (get_player_bazaar two_traders 1111111 not_found_response))).
      player_id r = 1111111 \<longrightarrow> last_checked r = Some (clock two_traders)"
    unfolding not_found_response_def
    using last_checked_updated_on_response [of two_traders 1111111] by blast
  from bspec [OF this m] show ?thesis using m by simp
qed

text \<open>The claim as written fails when the request itself fails: the timestamps stay
  \<^verbatim>\<open>NULL\<close>.\<close>

theorem request_failure_counterexample:
  "map last_checked (trader_ids (fst (get_player_bazaar two_traders 1111111 RequestFailed))) =
     [None, None]"
  by (simp add: two_traders_def fresh_scanner_def get_player_bazaar_def)

section \<open>Where a listing's name, category and market value come from\<close>

text \<open>
  C6. When a fetch returns listings, the \<open>i\<close>-th listing comes from the \<open>i\<close>-th bazaar
  entry: its name, category and market value are the entry's own field when the entry
  has it, otherwise the field of the cached catalog item with the entry's identifier
  when there is one, otherwise \<^verbatim>\<open>'Unknown Item'\<close>, \<^verbatim>\<open>'Miscellaneous'\<close> and 0. In the
  scenario, the catalog \<open>{100: (Xanax, Drug, 850)}\<close> is cached and the bazaar entry
  \<open>{price: 900, quantity: 5}\<close> for item 100 gives the listing Xanax, Drug, 850, 900, 5.
\<close>

theorem listing_metadata_precedence:
  "(resp = Body (JObj d) \<and> map_of d ''bazaar'' = Some (JObj entries) \<and>
    snd (get_player_bazaar s pid resp) = ls \<and> ls \<noteq> [] \<and>
    i < length entries \<and> entries ! i = (k, JObj item_data) \<longrightarrow>
      length ls = length entries \<and>
      (\<exists>n. py_int k = Some n \<and> item_id (ls ! i) = n \<and>
        item_name (ls ! i) =
          (case map_of item_data ''name'' of
             Some v \<Rightarrow> v
           | None \<Rightarrow> (case items_cache s n of
                        Some info \<Rightarrow> ci_name info | None \<Rightarrow> JStr ''Unknown Item'')) \<and>
        category (ls ! i) =
          (case map_of item_data ''category'' of
             Some v \<Rightarrow> v
           | None \<Rightarrow> (case items_cache s n of
                        Some info \<Rightarrow> ci_category info | None \<Rightarrow> JStr ''Miscellaneous'')) \<and>
        market_value (ls ! i) =
          (case map_of item_data ''market_value'' of
             Some v \<Rightarrow> v
           | None \<Rightarrow> (case items_cache s n of
                        Some info \<Rightarrow> ci_market_value info | None \<Rightarrow> JInt 0)))) \<and>
   fetch_items_metadata fresh_scanner xanax_catalog =
     (True, fresh_scanner
        \<lparr>items_cache := [100 \<mapsto> \<lparr>ci_id = 100, ci_name = JStr ''Xanax'', ci_category = JStr ''Drug'',
                                 ci_type = JStr [], ci_market_value = JInt 850\<rparr>],
         clock := 1,
         items := [100 \<mapsto> \<lparr>ir_name = JStr ''Xanax'', ir_category = JStr ''Drug'',
                            ir_type = JStr [], ir_market_value = JInt 850, ir_last_updated = 0\<rparr>]\<rparr>) \<and>
   snd (get_player_bazaar (snd (fetch_items_metadata fresh_scanner xanax_catalog)) 1111111 xanax_bazaar) =
     [\<lparr>item_id = 100, item_name = JStr ''Xanax'', category = JStr ''Drug'', price = JInt 900,
       quantity = JInt 5, seller_id = 1111111, seller_name = JStr ''Player 1111111'',
       market_value = JInt 850\<rparr>]"
proof (intro conjI impI)
  assume a: "resp = Body (JObj d) \<and> map_of d ''bazaar'' = Some (JObj entries) \<and>
    snd (get_player_bazaar s pid resp) = ls \<and> ls \<noteq> [] \<and>
    i < length entries \<and> entries ! i = (k, JObj item_data)"
  then have h: "resp = Body (JObj d)" "map_of d ''bazaar'' = Some (JObj entries)"
    "snd (get_player_bazaar s pid resp) = ls" "ls \<noteq> []" "i < length entries"
    and e: "entries ! i = (k, JObj item_data)"
    by blast+
  from get_player_bazaar_entry [OF h] e
  obtain pname where len: "length ls = length entries"
    and it: "bazaar_item (items_cache s) pid pname (k, JObj item_data) = Some (ls ! i)"
    by auto
  show "length ls = length entries" by (rule len)
  from bazaar_item_fields(1) [OF it]
  show "\<exists>n. py_int k = Some n \<and> item_id (ls ! i) = n \<and>
        item_name (ls ! i) =
          (case map_of item_data ''name'' of
             Some v \<Rightarrow> v
           | None \<Rightarrow> (case items_cache s n of
                        Some info \<Rightarrow> ci_name info | None \<Rightarrow> JStr ''Unknown Item'')) \<and>
        category (ls ! i) =
          (case map_of item_data ''category'' of
             Some v \<Rightarrow> v
           | None \<Rightarrow> (case items_cache s n of
                        Some info \<Rightarrow> ci_category info | None \<Rightarrow> JStr ''Miscellaneous'')) \<and>
        market_value (ls ! i) =
          (case map_of item_data ''market_value'' of
             Some v \<Rightarrow> v
           | None \<Rightarrow> (case items_cache s n of
                        Some info \<Rightarrow> ci_market_value info | None \<Rightarrow> JInt 0))"
    by (simp add: dict_get_def)
next
  show c: "fetch_items_metadata fresh_scanner xanax_catalog =
     (True, fresh_scanner
        \<lparr>items_cache := [100 \<mapsto> \<lparr>ci_id = 100, ci_name = JStr ''Xanax'', ci_category = JStr ''Drug'',
                                 ci_type = JStr [], ci_market_value = JInt 850\<rparr>],
         clock := 1,
         items := [100 \<mapsto> \<lparr>ir_name = JStr ''Xanax'', ir_category = JStr ''Drug'',
                            ir_type = JStr [], ir_market_value = JInt 850, ir_last_updated = 0\<rparr>]\<rparr>)"
    by (simp add: xanax_catalog_def fresh_scanner_def fetch_items_metadata_def make_cat_item_def
          item_insertable_def py_defs)
  show "snd (get_player_bazaar (snd (fetch_items_metadata fresh_scanner xanax_catalog)) 1111111 xanax_bazaar) =
     [\<lparr>item_id = 100, item_name = JStr ''Xanax'', category = JStr ''Drug'', price = JInt 900,
       quantity = JInt 5, seller_id = 1111111, seller_name = JStr ''Player 1111111'',
       market_value = JInt 850\<rparr>]"
    unfolding c
    by (simp add: xanax_bazaar_def fresh_scanner_def get_player_bazaar_def set_last_checked_def
          bazaar_item_def py_defs)
qed

theorem listing_metadata_precedence_witness:
  "snd (get_player_bazaar (snd (fetch_items_metadata fresh_scanner xanax_catalog)) 1111111 xanax_bazaar) \<noteq> [] \<and>
   (\<exists>n. py_int ''100'' = Some n \<and>
      item_name (snd (get_player_bazaar (snd (fetch_items_metadata fresh_scanner xanax_catalog))
                        1111111 xanax_bazaar) ! 0) =
        (case items_cache (snd (fetch_items_metadata fresh_scanner xanax_catalog)) n of
           Some info \<Rightarrow> ci_name info | None \<Rightarrow> JStr ''Unknown Item''))"
proof -
  let ?s = "snd (fetch_items_metadata fresh_scanner xanax_catalog)"
  have ne: "snd (get_player_bazaar ?s 1111111 xanax_bazaar) \<noteq> []"
    using listing_metadata_precedence [THEN conjunct2, THEN conjunct2] by simp
  from listing_metadata_precedence [THEN conjunct1, of xanax_bazaar
      "[(''bazaar'', JObj [(''100'', JObj [(''price'', JInt 900), (''quantity'', JInt 5)])])]"
      "[(''100'', JObj [(''price'', JInt 900), (''quantity'', JInt 5)])]" ?s 1111111 _ 0
      "''100''" "[(''price'', JInt 900), (''quantity'', JInt 5)]"] ne
  show ?thesis by (simp add: xanax_bazaar_def)
qed

section \<open>A failing catalog refresh\<close>

lemma cache_items_append:
  "cache_items (pre @ post) s =
     (case cache_items pre s of Inl s' \<Rightarrow> Inl s' | Inr s' \<Rightarrow> cache_items post s')"
  by (induction pre arbitrary: s) (simp_all add: Let_def split: option.split)

lemma cache_items_failure:
  assumes "cache_items es s = Inl s'"
  shows "\<exists>pre e post s''. es = pre @ e # post \<and> cache_items pre s = Inr s'' \<and>
           (s' = s'' \<or>
            (\<exists>i d. py_int (fst e) = Some i \<and> snd e = JObj d \<and>
               \<not> item_insertable (make_cat_item i d) \<and>
               s' = s''\<lparr>items_cache := (items_cache s'')(i \<mapsto> make_cat_item i d),
                         clock := Suc (clock s'')\<rparr>))"
  using assms
proof (induction es arbitrary: s)
  case Nil
  then show ?case by simp
next
  case (Cons e es)
  have here: "\<exists>pre e' post s''. e # es = pre @ e' # post \<and> cache_items pre s = Inr s'' \<and>
           (s' = s'' \<or>
            (\<exists>i d. py_int (fst e') = Some i \<and> snd e' = JObj d \<and>
               \<not> item_insertable (make_cat_item i d) \<and>
               s' = s''\<lparr>items_cache := (items_cache s'')(i \<mapsto> make_cat_item i d),
                         clock := Suc (clock s'')\<rparr>))"
    if "s' = s \<or>
        (\<exists>i d. py_int (fst e) = Some i \<and> snd e = JObj d \<and>
               \<not> item_insertable (make_cat_item i d) \<and>
               s' = s\<lparr>items_cache := (items_cache s)(i \<mapsto> make_cat_item i d),
                       clock := Suc (clock s)\<rparr>)"
  proof -
    have "e # es = [] @ e # es" and "cache_items [] s = Inr s" by simp_all
    with that show ?thesis by blast
  qed
  show ?case
  proof (cases "py_int (fst e)")
    case None
    with Cons.prems have "s' = s" by simp
    then show ?thesis using here by blast
  next
    case (Some i)
    show ?thesis
    proof (cases "as_dict (snd e)")
      case None
      with Some Cons.prems have "s' = s" by simp
      then show ?thesis using here by blast
    next
      case d: (Some d)
      then have sd: "snd e = JObj d" by simp
      let ?s1 = "s\<lparr>items_cache := (items_cache s)(i \<mapsto> make_cat_item i d), clock := Suc (clock s)\<rparr>"
      show ?thesis
      proof (cases "item_insertable (make_cat_item i d)")
        case False
        with Some d Cons.prems have "s' = ?s1" by (simp add: Let_def)
        with Some sd False show ?thesis using here by blast
      next
        case True
        let ?s2 = "?s1\<lparr>items := (items ?s1)(i \<mapsto>
                      \<lparr>ir_name = ci_name (make_cat_item i d),
                       ir_category = ci_category (make_cat_item i d),
                       ir_type = ci_type (make_cat_item i d),
                       ir_market_value = ci_market_value (make_cat_item i d),
                       ir_last_updated = clock s\<rparr>)\<rparr>"
        have step: "cache_items (e # rest) s = cache_items rest ?s2" for rest
          using True Some d by (simp add: Let_def)
        from Cons.prems step have "cache_items es ?s2 = Inl s'" by simp
        from Cons.IH [OF this] obtain pre e' post s''
          where es: "es = pre @ e' # post" and pre: "cache_items pre ?s2 = Inr s''"
            and s': "s' = s'' \<or>
              (\<exists>i d. py_int (fst e') = Some i \<and> snd e' = JObj d \<and>
                 \<not> item_insertable (make_cat_item i d) \<and>
                 s' = s''\<lparr>items_cache := (items_cache s'')(i \<mapsto> make_cat_item i d),
                           clock := Suc (clock s'')\<rparr>)"
          by blast
        from es have "e # es = (e # pre) @ e' # post" by simp
        moreover from pre step have "cache_items (e # pre) s = Inr s''" by simp
        ultimately show ?thesis using s' by blast
      qed
    qed
  qed
qed

text \<open>
  C5, as the code has it. When there are no entries to process (the request failed,
  the body is not a dict, \<^verbatim>\<open>items\<close> is missing or is not a dict) the refresh returns
  \<^verbatim>\<open>False\<close> and changes nothing. When it fails at an entry, the state is the one that
  processing the entries before it leaves, so those entries are in the cache; the
  failing entry is in the cache too when its database insert is what failed.
\<close>

theorem catalog_refresh_failure:
  "((\<forall>d entries. resp = Body (JObj d) \<longrightarrow> map_of d ''items'' \<noteq> Some (JObj entries)) \<longrightarrow>
      fetch_items_metadata s resp = (False, s)) \<and>
   (resp = Body (JObj d) \<and> map_of d ''items'' = Some (JObj entries) \<and>
    fst (fetch_items_metadata s resp) = False \<longrightarrow>
      (\<exists>pre e post s''. entries = pre @ e # post \<and> cache_items pre s = Inr s'' \<and>
         (snd (fetch_items_metadata s resp) = s'' \<or>
          (\<exists>i item_data. py_int (fst e) = Some i \<and> snd e = JObj item_data \<and>
             \<not> item_insertable (make_cat_item i item_data) \<and>
             snd (fetch_items_metadata s resp) =
               s''\<lparr>items_cache := (items_cache s'')(i \<mapsto> make_cat_item i item_data),
                    clock := Suc (clock s'')\<rparr>))))"
proof (intro conjI impI)
  assume "\<forall>d entries. resp = Body (JObj d) \<longrightarrow> map_of d ''items'' \<noteq> Some (JObj entries)"
  then show "fetch_items_metadata s resp = (False, s)"
    by (auto simp: fetch_items_metadata_def split: response.splits option.splits)
next
  assume a: "resp = Body (JObj d) \<and> map_of d ''items'' = Some (JObj entries) \<and>
    fst (fetch_items_metadata s resp) = False"
  then have f: "fetch_items_metadata s resp =
      (case cache_items entries s of Inl s' \<Rightarrow> (False, s') | Inr s' \<Rightarrow> (True, s'))"
    by (simp add: fetch_items_metadata_def)
  with a obtain s' where s': "cache_items entries s = Inl s'"
    by (cases "cache_items entries s") auto
  with f have "snd (fetch_items_metadata s resp) = s'" by simp
  with cache_items_failure [OF s']
  show "\<exists>pre e post s''. entries = pre @ e # post \<and> cache_items pre s = Inr s'' \<and>
         (snd (fetch_items_metadata s resp) = s'' \<or>
          (\<exists>i item_data. py_int (fst e) = Some i \<and> snd e = JObj item_data \<and>
             \<not> item_insertable (make_cat_item i item_data) \<and>
             snd (fetch_items_metadata s resp) =
               s''\<lparr>items_cache := (items_cache s'')(i \<mapsto> make_cat_item i item_data),
                    clock := Suc (clock s'')\<rparr>))"
    by simp
qed

text \<open>The claim as written fails: a refresh that fails at its second entry has already
  put the first one into the cache.\<close>

theorem catalog_refresh_failure_counterexample:
  "fst (fetch_items_metadata fresh_scanner broken_catalog) = False \<and>
   items_cache fresh_scanner 100 = None \<and>
   items_cache (snd (fetch_items_metadata fresh_scanner broken_catalog)) 100 =
     Some \<lparr>ci_id = 100, ci_name = JStr ''Xanax'', ci_category = JStr ''Drug'',
           ci_type = JStr [], ci_market_value = JInt 850\<rparr>"
  by (simp add: broken_catalog_def fresh_scanner_def fetch_items_metadata_def make_cat_item_def
        item_insertable_def py_defs)

theorem catalog_refresh_failure_witness:
  "fetch_items_metadata fresh_scanner RequestFailed = (False, fresh_scanner) \<and>
   fst (fetch_items_metadata fresh_scanner broken_catalog) = False \<and>
   (\<exists>pre e post s''.
      [(''100'', JObj [(''name'', JStr ''Xanax''), (''type'', JStr ''Drug''),
                       (''market_value'', JInt 850)]),
       (''x'', JObj [(''name'', JStr ''Vicodin'')])] = pre @ e # post \<and>
      cache_items pre fresh_scanner = Inr s'' \<and>
      (snd (fetch_items_metadata fresh_scanner broken_catalog) = s'' \<or>
       (\<exists>i item_data. py_int (fst e) = Some i \<and> snd e = JObj item_data \<and>
          \<not> item_insertable (make_cat_item i item_data) \<and>
          snd (fetch_items_metadata fresh_scanner broken_catalog) =
            s''\<lparr>items_cache := (items_cache s'')(i \<mapsto> make_cat_item i item_data),
                 clock := Suc (clock s'')\<rparr>)))"
proof -
  have f: "fst (fetch_items_metadata fresh_scanner broken_catalog) = False"
    by (simp add: broken_catalog_def fresh_scanner_def fetch_items_metadata_def make_cat_item_def
          item_insertable_def py_defs)
  have b: "broken_catalog = Body (JObj [(''items'', JObj
       [(''100'', JObj [(''name'', JStr ''Xanax''), (''type'', JStr ''Drug''),
                        (''market_value'', JInt 850)]),
        (''x'', JObj [(''name'', JStr ''Vicodin'')])])])"
    by (simp add: broken_catalog_def)
  have m: "map_of [(''items'', JObj
       [(''100'', JObj [(''name'', JStr ''Xanax''), (''type'', JStr ''Drug''),
                        (''market_value'', JInt 850)]),
        (''x'', JObj [(''name'', JStr ''Vicodin'')])])] ''items'' =
     Some (JObj [(''100'', JObj [(''name'', JStr ''Xanax''), (''type'', JStr ''Drug''),
                        (''market_value'', JInt 850)]),
        (''x'', JObj [(''name'', JStr ''Vicodin'')])])"
    by simp
  from catalog_refresh_failure [of RequestFailed fresh_scanner]
  have "fetch_items_metadata fresh_scanner RequestFailed = (False, fresh_scanner)"
    by simp
  moreover note f
  moreover from catalog_refresh_failure [THEN conjunct2, rule_format, OF conjI [OF b conjI [OF m f]]]
  have "\<exists>pre e post s''.
      [(''100'', JObj [(''name'', JStr ''Xanax''), (''type'', JStr ''Drug''),
                       (''market_value'', JInt 850)]),
       (''x'', JObj [(''name'', JStr ''Vicodin'')])] = pre @ e # post \<and>
      cache_items pre fresh_scanner = Inr s'' \<and>
      (snd (fetch_items_metadata fresh_scanner broken_catalog) = s'' \<or>
       (\<exists>i item_data. py_int (fst e) = Some i \<and> snd e = JObj item_data \<and>
          \<not> item_insertable (make_cat_item i item_data) \<and>
          snd (fetch_items_metadata fresh_scanner broken_catalog) =
            s''\<lparr>items_cache := (items_cache s'')(i \<mapsto> make_cat_item i item_data),
                 clock := Suc (clock s'')\<rparr>))" .
  ultimately show ?thesis by blast
qed

section \<open>A scan whose catalog refresh fails\<close>

text \<open>
  C1, as the code has it. \<^verbatim>\<open>scan\<close> refreshes the catalog before \<^verbatim>\<open>_start_scan\<close>: when
  the refresh fails the scan returns \<^verbatim>\<open>False\<close> at once, no bazaar is requested, no row of
  \<^verbatim>\<open>scan_history\<close> is created or changed, and the rows of \<^verbatim>\<open>trader_ids\<close> and \<^verbatim>\<open>listings\<close>
  are as before.
\<close>

theorem catalog_failure_aborts_scan:
  assumes "fst (fetch_items_metadata s catalog) = False"
  shows "scan api catalog limit s = (False, snd (fetch_items_metadata s catalog)) \<and>
         api_calls (snd (scan api catalog limit s)) = api_calls s \<and>
         scan_history (snd (scan api catalog limit s)) = scan_history s \<and>
         trader_ids (snd (scan api catalog limit s)) = trader_ids s \<and>
         listings (snd (scan api catalog limit s)) = listings s"
proof -
  from assms have "scan api catalog limit s = (False, snd (fetch_items_metadata s catalog))"
    by (cases "fetch_items_metadata s catalog") (simp add: scan_def)
  then show ?thesis by (simp add: fetch_items_metadata_unchanged)
qed

theorem catalog_failure_aborts_scan_witness:
  "fst (fetch_items_metadata two_traders RequestFailed) = False \<and>
   scan no_answer RequestFailed None two_traders = (False, two_traders)"
proof -
  have f: "fetch_items_metadata two_traders RequestFailed = (False, two_traders)"
    by (simp add: fetch_items_metadata_def)
  then have "fst (fetch_items_metadata two_traders RequestFailed) = False" by simp
  from this catalog_failure_aborts_scan [OF this, of no_answer None]
  show ?thesis by (simp add: f)
qed

text \<open>The claim as written fails: after a failed refresh there is no scan record at all,
  so none with status \<^verbatim>\<open>failed\<close>.\<close>

theorem catalog_failure_no_record_counterexample:
  "fst (scan no_answer RequestFailed None two_traders) = False \<and>
   scan_history (snd (scan no_answer RequestFailed None two_traders)) = []"
  by (simp add: scan_def fetch_items_metadata_def two_traders_def fresh_scanner_def)

section \<open>Facts about storing and about the loop\<close>

lemma state_of_simps [simp]: "state_of (Inl s) = s" "state_of (Inr s) = s"
  by (simp_all add: state_of_def)

lemma insert_listings_unchanged:
  "items_cache (state_of (insert_listings ts its s)) = items_cache s"
  "scan_id (state_of (insert_listings ts its s)) = scan_id s"
  "clock (state_of (insert_listings ts its s)) = clock s"
  "trader_ids (state_of (insert_listings ts its s)) = trader_ids s"
  "items (state_of (insert_listings ts its s)) = items s"
  "scan_history (state_of (insert_listings ts its s)) = scan_history s"
  "scan_history_seq (state_of (insert_listings ts its s)) = scan_history_seq s"
  "api_calls (state_of (insert_listings ts its s)) = api_calls s"
  "store_calls (state_of (insert_listings ts its s)) = store_calls s"
  by (induction its arbitrary: s; simp add: Let_def)+

lemma insert_listings_rows:
  "\<exists>rows. listings (state_of (insert_listings ts its s)) = listings s @ rows \<and>
          map l_item rows = takeWhile listing_insertable its"
proof (induction its arbitrary: s)
  case Nil
  then show ?case by simp
next
  case (Cons it its)
  show ?case
  proof (cases "listing_insertable it")
    case False
    then show ?thesis by simp
  next
    case True
    let ?row = "\<lparr>l_id = next_id (listings_seq s) (map l_id (listings s)), l_item = it, l_timestamp = ts\<rparr>"
    let ?s1 = "s\<lparr>listings := listings s @ [?row],
                 listings_seq := next_id (listings_seq s) (map l_id (listings s))\<rparr>"
    from True have step: "insert_listings ts (it # its) s = insert_listings ts its ?s1"
      by (simp add: Let_def)
    from Cons.IH [of ?s1] obtain rows where
      r: "listings (state_of (insert_listings ts its ?s1)) = listings ?s1 @ rows"
      and m: "map l_item rows = takeWhile listing_insertable its"
      by blast
    from r have r': "listings (state_of (insert_listings ts its ?s1)) = listings s @ (?row # rows)"
      by simp
    from m True have m': "map l_item (?row # rows) = takeWhile listing_insertable (it # its)"
      by simp
    show ?thesis
      unfolding step using r' m' by blast
  qed
qed

lemma insert_listings_returns:
  "(\<exists>s'. insert_listings ts its s = Inr s') \<longleftrightarrow> (\<forall>x \<in> set its. listing_insertable x)"
  by (induction its arbitrary: s) (simp_all add: Let_def)

lemma store_bazaar_items_unchanged:
  "items_cache (state_of (store_bazaar_items s its)) = items_cache s"
  "scan_id (state_of (store_bazaar_items s its)) = scan_id s"
  "clock (state_of (store_bazaar_items s its)) = Suc (clock s)"
  "trader_ids (state_of (store_bazaar_items s its)) = trader_ids s"
  "items (state_of (store_bazaar_items s its)) = items s"
  "scan_history (state_of (store_bazaar_items s its)) = scan_history s"
  "scan_history_seq (state_of (store_bazaar_items s its)) = scan_history_seq s"
  "api_calls (state_of (store_bazaar_items s its)) = api_calls s"
  "store_calls (state_of (store_bazaar_items s its)) = store_calls s @ [its]"
  by (simp_all add: store_bazaar_items_def Let_def insert_listings_unchanged)

lemma store_bazaar_items_rows:
  "\<exists>rows. listings (state_of (store_bazaar_items s its)) =
            filter (\<lambda>r. seller_id (l_item r) \<notin> seller_id ` set its) (listings s) @ rows \<and>
          map l_item rows = takeWhile listing_insertable its"
proof (cases "its = []")
  case True
  then show ?thesis by (simp add: store_bazaar_items_def Let_def)
next
  case False
  then show ?thesis
    using insert_listings_rows [of "clock s" its
        "s\<lparr>clock := Suc (clock s), store_calls := store_calls s @ [its],
           listings := filter (\<lambda>r. seller_id (l_item r) \<notin> seller_id ` set its) (listings s)\<rparr>"]
    by (simp add: store_bazaar_items_def Let_def)
qed

lemma store_bazaar_items_returns:
  "(\<exists>s'. store_bazaar_items s its = Inr s') \<longleftrightarrow> (\<forall>x \<in> set its. listing_insertable x)"
  by (simp add: store_bazaar_items_def Let_def insert_listings_returns)
text \<open>One rule for every property of the loop: it relates the arguments of \<open>scan_loop\<close> to
  its result, following the three ways an iteration can go.\<close>

lemma scan_loop_rule [consumes 0, case_names finished raise flush keep]:
  assumes finished: "\<And>s n m acc. P [] s n m acc (Finished s n m acc)"
    and raise: "\<And>p ps s n m acc s1 its s2.
      get_player_bazaar s p (api p) = (s1, its) \<Longrightarrow> 100 \<le> length (acc @ its) \<Longrightarrow>
      store_bazaar_items s1 (acc @ its) = Inl s2 \<Longrightarrow>
      P (p # ps) s n m acc (Raised s2 (n + 1) (m + length its))"
    and flush: "\<And>p ps s n m acc s1 its s2.
      get_player_bazaar s p (api p) = (s1, its) \<Longrightarrow> 100 \<le> length (acc @ its) \<Longrightarrow>
      store_bazaar_items s1 (acc @ its) = Inr s2 \<Longrightarrow>
      P ps s2 (n + 1) (m + length its) [] (scan_loop api ps s2 (n + 1) (m + length its) []) \<Longrightarrow>
      P (p # ps) s n m acc (scan_loop api ps s2 (n + 1) (m + length its) [])"
    and keep: "\<And>p ps s n m acc s1 its.
      get_player_bazaar s p (api p) = (s1, its) \<Longrightarrow> length (acc @ its) < 100 \<Longrightarrow>
      P ps s1 (n + 1) (m + length its) (acc @ its)
        (scan_loop api ps s1 (n + 1) (m + length its) (acc @ its)) \<Longrightarrow>
      P (p # ps) s n m acc (scan_loop api ps s1 (n + 1) (m + length its) (acc @ its))"
  shows "P ps s n m acc (scan_loop api ps s n m acc)"
proof (induction ps arbitrary: s n m acc)
  case Nil
  show ?case by (simp add: finished)
next
  case (Cons p ps)
  obtain s1 its where g: "get_player_bazaar s p (api p) = (s1, its)"
    by (cases "get_player_bazaar s p (api p)")
  show ?case
  proof (cases "100 \<le> length (acc @ its)")
    case False
    then have lt: "length (acc @ its) < 100" by simp
    from g False have "scan_loop api (p # ps) s n m acc =
        scan_loop api ps s1 (n + 1) (m + length its) (acc @ its)"
      by (simp add: Let_def)
    with keep [OF g lt Cons.IH] show ?thesis by simp
  next
    case True
    show ?thesis
    proof (cases "store_bazaar_items s1 (acc @ its)")
      case (Inl s2)
      with g True have "scan_loop api (p # ps) s n m acc = Raised s2 (n + 1) (m + length its)"
        by (simp add: Let_def)
      with raise [OF g True Inl] show ?thesis by simp
    next
      case (Inr s2)
      with g True have "scan_loop api (p # ps) s n m acc =
          scan_loop api ps s2 (n + 1) (m + length its) []"
        by (simp add: Let_def)
      with flush [OF g True Inr Cons.IH] show ?thesis by simp
    qed
  qed
qed

lemma scan_loop_preserves:
  assumes fetch: "\<And>s p r. f (fst (get_player_bazaar s p r)) = f s"
    and store: "\<And>s its. f (state_of (store_bazaar_items s its)) = f s"
  shows "f (result_state (scan_loop api ps s n m acc)) = f s"
proof (rule scan_loop_rule [where P = "\<lambda>ps s n m acc r. f (result_state r) = f s"])
  fix s n m acc
  show "f (result_state (Finished s n m acc)) = f s" by simp
next
  fix p ps s n m acc s1 its s2
  assume g: "get_player_bazaar s p (api p) = (s1, its)"
    and st: "store_bazaar_items s1 (acc @ its) = Inl s2"
  from fetch [of s p "api p"] g have "f s1 = f s" by simp
  moreover from store [of s1 "acc @ its"] st have "f s2 = f s1" by simp
  ultimately show "f (result_state (Raised s2 (n + 1) (m + length its))) = f s" by simp
next
  fix p ps s n m acc s1 its s2
  assume g: "get_player_bazaar s p (api p) = (s1, its)"
    and st: "store_bazaar_items s1 (acc @ its) = Inr s2"
    and ih: "f (result_state (scan_loop api ps s2 (n + 1) (m + length its) [])) = f s2"
  from fetch [of s p "api p"] g have "f s1 = f s" by simp
  moreover from store [of s1 "acc @ its"] st have "f s2 = f s1" by simp
  ultimately show "f (result_state (scan_loop api ps s2 (n + 1) (m + length its) [])) = f s"
    using ih by simp
next
  fix p ps s n m acc s1 its
  assume g: "get_player_bazaar s p (api p) = (s1, its)"
    and ih: "f (result_state (scan_loop api ps s1 (n + 1) (m + length its) (acc @ its))) = f s1"
  from fetch [of s p "api p"] g have "f s1 = f s" by simp
  with ih show "f (result_state (scan_loop api ps s1 (n + 1) (m + length its) (acc @ its))) = f s"
    by simp
qed

lemma scan_loop_unchanged:
  "items_cache (result_state (scan_loop api ps s n m acc)) = items_cache s"
  "scan_id (result_state (scan_loop api ps s n m acc)) = scan_id s"
  "scan_history (result_state (scan_loop api ps s n m acc)) = scan_history s"
  "scan_history_seq (result_state (scan_loop api ps s n m acc)) = scan_history_seq s"
  by (rule scan_loop_preserves;
      simp add: get_player_bazaar_unchanged store_bazaar_items_unchanged)+

lemma scan_loop_store_calls:
  "\<exists>bs. store_calls (result_state (scan_loop api ps s n m acc)) = store_calls s @ bs \<and>
         (\<forall>b \<in> set bs. 100 \<le> length b)"
proof (rule scan_loop_rule [where P = "\<lambda>ps s n m acc r.
    \<exists>bs. store_calls (result_state r) = store_calls s @ bs \<and> (\<forall>b \<in> set bs. 100 \<le> length b)"])
  fix s n m acc
  show "\<exists>bs. store_calls (result_state (Finished s n m acc)) = store_calls s @ bs \<and>
         (\<forall>b \<in> set bs. 100 \<le> length b)"
    by simp
next
  fix p ps s n m acc s1 its s2
  assume g: "get_player_bazaar s p (api p) = (s1, its)" and big: "100 \<le> length (acc @ its)"
    and st: "store_bazaar_items s1 (acc @ its) = Inl s2"
  from get_player_bazaar_unchanged(6) [of s p "api p"] g have "store_calls s1 = store_calls s"
    by simp
  moreover from store_bazaar_items_unchanged(9) [of s1 "acc @ its"] st
  have "store_calls s2 = store_calls s1 @ [acc @ its]" by simp
  ultimately have "store_calls s2 = store_calls s @ [acc @ its]" by simp
  with big show "\<exists>bs. store_calls (result_state (Raised s2 (n + 1) (m + length its))) =
      store_calls s @ bs \<and> (\<forall>b \<in> set bs. 100 \<le> length b)"
    by simp
next
  fix p ps s n m acc s1 its s2
  assume g: "get_player_bazaar s p (api p) = (s1, its)" and big: "100 \<le> length (acc @ its)"
    and st: "store_bazaar_items s1 (acc @ its) = Inr s2"
    and ih: "\<exists>bs. store_calls (result_state (scan_loop api ps s2 (n + 1) (m + length its) [])) =
      store_calls s2 @ bs \<and> (\<forall>b \<in> set bs. 100 \<le> length b)"
  from get_player_bazaar_unchanged(6) [of s p "api p"] g have "store_calls s1 = store_calls s"
    by simp
  moreover from store_bazaar_items_unchanged(9) [of s1 "acc @ its"] st
  have "store_calls s2 = store_calls s1 @ [acc @ its]" by simp
  ultimately have s2: "store_calls s2 = store_calls s @ [acc @ its]" by simp
  from ih obtain bs where
    bs: "store_calls (result_state (scan_loop api ps s2 (n + 1) (m + length its) [])) =
      store_calls s2 @ bs" and all: "\<forall>b \<in> set bs. 100 \<le> length b"
    by blast
  from bs s2 have "store_calls (result_state (scan_loop api ps s2 (n + 1) (m + length its) [])) =
      store_calls s @ ((acc @ its) # bs)" by simp
  moreover from all big have "\<forall>b \<in> set ((acc @ its) # bs). 100 \<le> length b" by simp
  ultimately show "\<exists>bs. store_calls (result_state (scan_loop api ps s2 (n + 1) (m + length its) [])) =
      store_calls s @ bs \<and> (\<forall>b \<in> set bs. 100 \<le> length b)"
    by blast
next
  fix p ps s n m acc s1 its
  assume g: "get_player_bazaar s p (api p) = (s1, its)"
    and ih: "\<exists>bs. store_calls (result_state (scan_loop api ps s1 (n + 1) (m + length its) (acc @ its))) =
      store_calls s1 @ bs \<and> (\<forall>b \<in> set bs. 100 \<le> length b)"
  from get_player_bazaar_unchanged(6) [of s p "api p"] g have "store_calls s1 = store_calls s"
    by simp
  with ih show "\<exists>bs. store_calls (result_state (scan_loop api ps s1 (n + 1) (m + length its) (acc @ its))) =
      store_calls s @ bs \<and> (\<forall>b \<in> set bs. 100 \<le> length b)"
    by simp
qed

lemma scan_loop_raised_counts:
  "length acc \<le> m \<longrightarrow> raised (scan_loop api ps s n m acc) \<longrightarrow>
     n < fst (result_counts (scan_loop api ps s n m acc)) \<and>
     100 \<le> snd (result_counts (scan_loop api ps s n m acc))"
proof (rule scan_loop_rule [where P = "\<lambda>ps s n m acc r.
    length acc \<le> m \<longrightarrow> raised r \<longrightarrow> n < fst (result_counts r) \<and> 100 \<le> snd (result_counts r)"])
qed auto

lemma scan_loop_empty:
  "raised (scan_loop api ps s n m acc) \<Longrightarrow> ps \<noteq> []"
  by (cases ps) auto

section \<open>The batches handed to the Snapshot Writer\<close>

lemma start_scan_unchanged:
  "items_cache (start_scan s) = items_cache s"
  "trader_ids (start_scan s) = trader_ids s"
  "listings (start_scan s) = listings s"
  "api_calls (start_scan s) = api_calls s"
  "store_calls (start_scan s) = store_calls s"
  by (simp_all add: start_scan_def Let_def)

lemma end_scan_unchanged:
  "items_cache (end_scan n m s) = items_cache s"
  "trader_ids (end_scan n m s) = trader_ids s"
  "listings (end_scan n m s) = listings s"
  "api_calls (end_scan n m s) = api_calls s"
  "store_calls (end_scan n m s) = store_calls s"
  by (simp_all add: end_scan_def)

lemma fail_scan_unchanged:
  "items_cache (fail_scan s) = items_cache s"
  "trader_ids (fail_scan s) = trader_ids s"
  "listings (fail_scan s) = listings s"
  "api_calls (fail_scan s) = api_calls s"
  "store_calls (fail_scan s) = store_calls s"
  by (simp_all add: fail_scan_def split: option.split)

text \<open>How \<^verbatim>\<open>scan\<close> goes once the catalog is cached, in terms of the loop's result.\<close>

lemma scan_after_refresh:
  assumes "fetch_items_metadata s catalog = (True, s1)"
  shows "scan api catalog limit s =
    (if select_traders limit (start_scan s1) = [] then (False, end_scan 0 0 (start_scan s1))
     else case scan_loop api (select_traders limit (start_scan s1)) (start_scan s1) 0 0 [] of
            Raised s3 n m \<Rightarrow> (False, fail_scan s3)
          | Finished s3 n m all_items \<Rightarrow>
              (case (if all_items \<noteq> [] then store_bazaar_items s3 all_items else Inr s3) of
                 Inl s4 \<Rightarrow> (False, fail_scan s4)
               | Inr s4 \<Rightarrow> (True, end_scan n m s4)))"
  using assms by (simp add: scan_def Let_def)

lemma scan_refresh_failed:
  assumes "fetch_items_metadata s catalog = (False, s1)"
  shows "scan api catalog limit s = (False, s1)"
  using assms by (simp add: scan_def)

text \<open>
  C9. Whatever a scan does, the batches it passes to \<^verbatim>\<open>_store_bazaar_items\<close> are all
  non-empty, and every one of them except possibly the last (the flush after the loop)
  has reached the threshold of 100 listings.
\<close>

theorem store_batches_nonempty:
  "\<exists>bs. store_calls (snd (scan api catalog limit s)) = store_calls s @ bs \<and>
         (\<forall>b \<in> set bs. b \<noteq> []) \<and> (\<forall>b \<in> set (butlast bs). 100 \<le> length b)"
proof -
  obtain ok s1 where f: "fetch_items_metadata s catalog = (ok, s1)"
    by (cases "fetch_items_metadata s catalog")
  then have s1: "store_calls s1 = store_calls s"
    using fetch_items_metadata_unchanged(8) [of s catalog] by simp
  have none: ?thesis if "store_calls (snd (scan api catalog limit s)) = store_calls s"
    using that by simp
  show ?thesis
  proof (cases ok)
    case False
    with f s1 have "store_calls (snd (scan api catalog limit s)) = store_calls s"
      by (simp add: scan_refresh_failed)
    then show ?thesis by (rule none)
  next
    case True
    let ?s2 = "start_scan s1"
    let ?ids = "select_traders limit ?s2"
    let ?r = "scan_loop api ?ids ?s2 0 0 []"
    from True f have sc: "scan api catalog limit s =
      (if ?ids = [] then (False, end_scan 0 0 ?s2)
       else case ?r of
            Raised s3 n m \<Rightarrow> (False, fail_scan s3)
          | Finished s3 n m all_items \<Rightarrow>
              (case (if all_items \<noteq> [] then store_bazaar_items s3 all_items else Inr s3) of
                 Inl s4 \<Rightarrow> (False, fail_scan s4)
               | Inr s4 \<Rightarrow> (True, end_scan n m s4)))"
      by (simp add: scan_after_refresh)
    have s2: "store_calls ?s2 = store_calls s"
      by (simp add: start_scan_unchanged s1)
    show ?thesis
    proof (cases "?ids = []")
      case True
      with sc s2 have "store_calls (snd (scan api catalog limit s)) = store_calls s"
        by (simp add: end_scan_unchanged)
      then show ?thesis by (rule none)
    next
      case False
      from scan_loop_store_calls [of api ?ids ?s2 0 0 "[]"] s2 obtain bs where
        bs: "store_calls (result_state ?r) = store_calls s @ bs"
        and big: "\<forall>b \<in> set bs. 100 \<le> length b"
        by auto
      from big have ne: "\<forall>b \<in> set bs. b \<noteq> []" by auto
      from big have bl: "\<forall>b \<in> set (butlast bs). 100 \<le> length b"
        by (auto dest: in_set_butlastD)
      show ?thesis
      proof (cases ?r)
        case (Raised s3 n m)
        with sc False bs have "store_calls (snd (scan api catalog limit s)) = store_calls s @ bs"
          by (simp add: fail_scan_unchanged)
        with ne bl show ?thesis by blast
      next
        case (Finished s3 n m all_items)
        with bs have s3: "store_calls s3 = store_calls s @ bs" by simp
        show ?thesis
        proof (cases "all_items = []")
          case True
          with sc False Finished s3
          have "store_calls (snd (scan api catalog limit s)) = store_calls s @ bs"
            by (simp add: end_scan_unchanged)
          with ne bl show ?thesis by blast
        next
          case ne_items: False
          have st: "store_calls (state_of (store_bazaar_items s3 all_items)) =
              store_calls s @ (bs @ [all_items])"
            by (simp add: store_bazaar_items_unchanged s3)
          have "store_calls (snd (scan api catalog limit s)) = store_calls s @ (bs @ [all_items])"
          proof (cases "store_bazaar_items s3 all_items")
            case (Inl s4)
            with st sc False Finished ne_items show ?thesis
              by (simp add: fail_scan_unchanged)
          next
            case (Inr s4)
            with st sc False Finished ne_items show ?thesis
              by (simp add: end_scan_unchanged)
          qed
          moreover from ne ne_items have "\<forall>b \<in> set (bs @ [all_items]). b \<noteq> []" by simp
          moreover from big have "\<forall>b \<in> set (butlast (bs @ [all_items])). 100 \<le> length b"
            by simp
          ultimately show ?thesis by blast
        qed
      qed
    qed
  qed
qed

theorem store_batches_nonempty_witness:
  "\<exists>bs. store_calls (snd (scan xanax_api xanax_catalog None two_traders)) =
           store_calls two_traders @ bs \<and> bs \<noteq> [] \<and> (\<forall>b \<in> set bs. b \<noteq> [])"
proof -
  have e: "store_calls (snd (scan xanax_api xanax_catalog None two_traders)) \<noteq> []"
    by (simp add: two_traders_def fresh_scanner_def xanax_catalog_def xanax_api_def xanax_bazaar_def
          not_found_response_def Let_def py_defs scanner_defs)
  have z: "store_calls two_traders = []"
    by (simp add: two_traders_def fresh_scanner_def)
  from store_batches_nonempty [of xanax_api xanax_catalog None two_traders] obtain bs where
    bs: "store_calls (snd (scan xanax_api xanax_catalog None two_traders)) =
           store_calls two_traders @ bs" and ne: "\<forall>b \<in> set bs. b \<noteq> []"
    by blast
  from bs e z have "bs \<noteq> []" by auto
  with bs ne show ?thesis by blast
qed

section \<open>The scan record of an aborted scan\<close>

lemma fold_max_ge:
  "(seq::nat) \<le> fold max ids seq \<and> (\<forall>x \<in> set ids. x \<le> fold max ids seq)"
proof (induction ids arbitrary: seq)
  case Nil
  show ?case by simp
next
  case (Cons a ids)
  from Cons.IH [of "max a seq"] show ?case by auto
qed

lemma next_id_fresh: "x \<in> set ids \<Longrightarrow> x < next_id seq ids"
  using fold_max_ge [of seq ids] by (auto simp: next_id_def)

lemma start_scan_history:
  "scan_history (start_scan s) = scan_history s @
     [\<lparr>s_id = next_id (scan_history_seq s) (map s_id (scan_history s)), start_time = clock s,
       end_time = None, traders_scanned = 0, items_found = 0, status = ''running''\<rparr>]"
  "scan_id (start_scan s) = Some (next_id (scan_history_seq s) (map s_id (scan_history s)))"
  by (simp_all add: start_scan_def Let_def)

lemma fail_scan_history:
  assumes "scan_id s = Some k" and "k \<noteq> 0" and "\<forall>r \<in> set h. s_id r \<noteq> k"
    and "scan_history s = h @ [row]" and "s_id row = k"
  shows "scan_history (fail_scan s) =
           h @ [row\<lparr>end_time := Some (clock s), status := ''failed''\<rparr>]"
proof -
  have "map (\<lambda>r. if s_id r = k then r\<lparr>end_time := Some (clock s), status := ''failed''\<rparr> else r) h = h"
    using assms(3) by (intro map_idI) simp
  with assms(1,2,4,5) show ?thesis by (simp add: fail_scan_def)
qed

lemma scan_aborted:
  assumes "fst (fetch_items_metadata s catalog)"
    and "s2 = start_scan (snd (fetch_items_metadata s catalog))"
    and "r = scan_loop api (select_traders limit s2) s2 0 0 []"
    and "raised r"
  shows "fst (scan api catalog limit s) = False \<and>
         scan_history (snd (scan api catalog limit s)) = scan_history s @
           [\<lparr>s_id = next_id (scan_history_seq s) (map s_id (scan_history s)),
             start_time = clock (snd (fetch_items_metadata s catalog)),
             end_time = Some (clock (result_state r)),
             traders_scanned = 0, items_found = 0, status = ''failed''\<rparr>] \<and>
         0 < fst (result_counts r) \<and> 100 \<le> snd (result_counts r)"
proof -
  let ?s1 = "snd (fetch_items_metadata s catalog)"
  let ?k = "next_id (scan_history_seq s) (map s_id (scan_history s))"
  let ?row = "\<lparr>s_id = ?k, start_time = clock ?s1, end_time = None,
               traders_scanned = 0, items_found = 0, status = ''running''\<rparr>"
  from assms(1) have f: "fetch_items_metadata s catalog = (True, ?s1)"
    by (cases "fetch_items_metadata s catalog") simp
  from assms(3,4) have ids: "select_traders limit s2 \<noteq> []"
    by (auto dest: scan_loop_empty)
  from assms(4) obtain s3 n m where r: "r = Raised s3 n m" by (cases r) auto
  from scan_after_refresh [OF f, of api limit] ids r assms(2,3)
  have sc: "scan api catalog limit s = (False, fail_scan s3)" by simp
  have h2: "scan_history s2 = scan_history s @ [?row]" and id2: "scan_id s2 = Some ?k"
    by (simp_all add: assms(2) start_scan_history fetch_items_metadata_unchanged)
  from scan_loop_unchanged(2,3) [of api "select_traders limit s2" s2 0 0 "[]"] r assms(3) h2 id2
  have h3: "scan_history s3 = scan_history s @ [?row]" and id3: "scan_id s3 = Some ?k"
    by simp_all
  have fresh: "\<forall>r \<in> set (scan_history s). s_id r \<noteq> ?k"
    using next_id_fresh [of _ "map s_id (scan_history s)" "scan_history_seq s"] by fastforce
  have "?k \<noteq> 0" by (simp add: next_id_def)
  from fail_scan_history [OF id3 this fresh h3]
  have "scan_history (fail_scan s3) = scan_history s @
      [?row\<lparr>end_time := Some (clock s3), status := ''failed''\<rparr>]"
    by simp
  moreover from scan_loop_raised_counts [of "[]" 0 api "select_traders limit s2" s2 0] assms(3,4)
  have "0 < fst (result_counts r) \<and> 100 \<le> snd (result_counts r)" by simp
  ultimately show ?thesis using sc r by simp
qed


text \<open>
  C3, as the code has it. When an exception leaves the loop over the sellers, the scan
  returns \<^verbatim>\<open>False\<close> and the record it opened, the last row of \<^verbatim>\<open>scan_history\<close>, gets an end
  timestamp and status \<^verbatim>\<open>failed\<close>; the handler writes no counts, so both counts in the
  record stay at the 0 they were inserted with, although at that moment the loop has
  attempted at least one seller and found at least 100 listings. The other records are
  untouched.
\<close>

theorem aborted_scan_record:
  assumes "fst (fetch_items_metadata s catalog)"
    and "s2 = start_scan (snd (fetch_items_metadata s catalog))"
    and "r = scan_loop api (select_traders limit s2) s2 0 0 []"
    and "raised r"
  shows "fst (scan api catalog limit s) = False \<and>
         scan_history (snd (scan api catalog limit s)) = scan_history s @
           [\<lparr>s_id = next_id (scan_history_seq s) (map s_id (scan_history s)),
             start_time = clock (snd (fetch_items_metadata s catalog)),
             end_time = Some (clock (result_state r)),
             traders_scanned = 0, items_found = 0, status = ''failed''\<rparr>] \<and>
         0 < fst (result_counts r) \<and> 100 \<le> snd (result_counts r)"
  using assms by (rule scan_aborted)

lemma scan_loop_first_raises:
  assumes "100 \<le> length (snd (get_player_bazaar s p (api p)))"
    and "x \<in> set (snd (get_player_bazaar s p (api p)))" and "\<not> listing_insertable x"
  shows "raised (scan_loop api (p # ps) s n m [])"
    and "result_counts (scan_loop api (p # ps) s n m []) =
           (n + 1, m + length (snd (get_player_bazaar s p (api p))))"
proof -
  obtain s1 its where g: "get_player_bazaar s p (api p) = (s1, its)"
    by (cases "get_player_bazaar s p (api p)")
  with assms have big: "100 \<le> length its" and bad: "\<not> (\<forall>x \<in> set its. listing_insertable x)"
    by auto
  from bad store_bazaar_items_returns [of s1 its] obtain s2
    where "store_bazaar_items s1 its = Inl s2"
    by (cases "store_bazaar_items s1 its") auto
  with g big show "raised (scan_loop api (p # ps) s n m [])"
    and "result_counts (scan_loop api (p # ps) s n m []) =
           (n + 1, m + length (snd (get_player_bazaar s p (api p))))"
    by simp_all
qed

lemma crowded_scan_start:
  "fetch_items_metadata one_trader xanax_catalog =
     (True, one_trader
        \<lparr>items_cache := [100 \<mapsto> \<lparr>ci_id = 100, ci_name = JStr ''Xanax'', ci_category = JStr ''Drug'',
                                 ci_type = JStr [], ci_market_value = JInt 850\<rparr>],
         clock := 1,
         items := [100 \<mapsto> \<lparr>ir_name = JStr ''Xanax'', ir_category = JStr ''Drug'',
                            ir_type = JStr [], ir_market_value = JInt 850, ir_last_updated = 0\<rparr>]\<rparr>)"
  "select_traders None (start_scan (snd (fetch_items_metadata one_trader xanax_catalog))) = [1111111]"
  "scan_history one_trader = []"
  by (simp_all add: xanax_catalog_def one_trader_def fresh_scanner_def fetch_items_metadata_def
        make_cat_item_def item_insertable_def select_traders_def start_scan_def py_defs)

lemma crowded_fetch:
  "length (snd (get_player_bazaar (start_scan (snd (fetch_items_metadata one_trader xanax_catalog)))
             1111111 (crowded_api 1111111))) = 100"
  "price (hd (snd (get_player_bazaar (start_scan (snd (fetch_items_metadata one_trader xanax_catalog)))
             1111111 (crowded_api 1111111)))) = JNull"
  unfolding crowded_scan_start(1)
  by (simp_all add: one_trader_def fresh_scanner_def crowded_api_def hundred_entries_def
        null_price_entry_def get_player_bazaar_def set_last_checked_def bazaar_item_def
        start_scan_def py_defs Let_def)

lemma crowded_loop:
  "raised (scan_loop crowded_api
      (select_traders None (start_scan (snd (fetch_items_metadata one_trader xanax_catalog))))
      (start_scan (snd (fetch_items_metadata one_trader xanax_catalog))) 0 0 [])"
  "result_counts (scan_loop crowded_api
      (select_traders None (start_scan (snd (fetch_items_metadata one_trader xanax_catalog))))
      (start_scan (snd (fetch_items_metadata one_trader xanax_catalog))) 0 0 []) = (1, 100)"
proof -
  let ?s2 = "start_scan (snd (fetch_items_metadata one_trader xanax_catalog))"
  let ?its = "snd (get_player_bazaar ?s2 1111111 (crowded_api 1111111))"
  from crowded_fetch(1) have big: "100 \<le> length ?its" and ne: "?its \<noteq> []" by auto
  from ne have m: "hd ?its \<in> set ?its" by simp
  from crowded_fetch(2) have bad: "\<not> listing_insertable (hd ?its)"
    by (simp add: listing_insertable_def)
  from scan_loop_first_raises [where api = crowded_api and p = 1111111 and s = ?s2
      and ps = "[]" and n = 0 and m = 0, OF big m bad] crowded_fetch(1)
  show "raised (scan_loop crowded_api (select_traders None ?s2) ?s2 0 0 [])"
    and "result_counts (scan_loop crowded_api (select_traders None ?s2) ?s2 0 0 []) = (1, 100)"
    by (simp_all add: crowded_scan_start(2))
qed

theorem aborted_scan_record_witness:
  "fst (fetch_items_metadata one_trader xanax_catalog) \<and>
   raised (scan_loop crowded_api
      (select_traders None (start_scan (snd (fetch_items_metadata one_trader xanax_catalog))))
      (start_scan (snd (fetch_items_metadata one_trader xanax_catalog))) 0 0 []) \<and>
   fst (scan crowded_api xanax_catalog None one_trader) = False \<and>
   map status (scan_history (snd (scan crowded_api xanax_catalog None one_trader))) = [''failed'']"
proof -
  have f: "fst (fetch_items_metadata one_trader xanax_catalog)"
    by (simp add: crowded_scan_start(1))
  from aborted_scan_record [OF f refl refl crowded_loop(1)] f crowded_loop(1)
  show ?thesis by (simp add: crowded_scan_start(3))
qed

text \<open>The claim as written fails: the loop was aborted with one seller attempted and a
  hundred listings found, and the record of the failed scan holds 0 and 0.\<close>

theorem aborted_scan_counts_counterexample:
  "raised (scan_loop crowded_api
      (select_traders None (start_scan (snd (fetch_items_metadata one_trader xanax_catalog))))
      (start_scan (snd (fetch_items_metadata one_trader xanax_catalog))) 0 0 []) \<and>
   result_counts (scan_loop crowded_api
      (select_traders None (start_scan (snd (fetch_items_metadata one_trader xanax_catalog))))
      (start_scan (snd (fetch_items_metadata one_trader xanax_catalog))) 0 0 []) = (1, 100) \<and>
   map status (scan_history (snd (scan crowded_api xanax_catalog None one_trader))) = [''failed''] \<and>
   map traders_scanned (scan_history (snd (scan crowded_api xanax_catalog None one_trader))) = [0] \<and>
   map items_found (scan_history (snd (scan crowded_api xanax_catalog None one_trader))) = [0]"
proof -
  have f: "fst (fetch_items_metadata one_trader xanax_catalog)"
    by (simp add: crowded_scan_start(1))
  from scan_aborted [OF f refl refl crowded_loop(1)] crowded_loop
  show ?thesis by (simp add: crowded_scan_start(3))
qed

section \<open>Error responses\<close>

lemma set_last_checked_other_rows:
  "p \<noteq> pid \<Longrightarrow>
   filter (\<lambda>r. player_id r = pid) (trader_ids (set_last_checked p s)) =
   filter (\<lambda>r. player_id r = pid) (trader_ids s)"
proof -
  have "p \<noteq> pid \<Longrightarrow>
    filter (\<lambda>r. player_id r = pid)
      (map (\<lambda>r. if player_id r = p then r\<lparr>last_checked := t\<rparr> else r) xs) =
    filter (\<lambda>r. player_id r = pid) xs" for t xs
    by (induction xs) simp_all
  then show "p \<noteq> pid \<Longrightarrow> ?thesis" by (simp add: set_last_checked_def)
qed

lemma set_inactive_other_rows:
  "p \<noteq> pid \<Longrightarrow>
   filter (\<lambda>r. player_id r = pid) (trader_ids (set_inactive p s)) =
   filter (\<lambda>r. player_id r = pid) (trader_ids s)"
proof -
  have "p \<noteq> pid \<Longrightarrow>
    filter (\<lambda>r. player_id r = pid)
      (map (\<lambda>r. if player_id r = p then r\<lparr>active := 0\<rparr> else r) xs) =
    filter (\<lambda>r. player_id r = pid) xs" for xs
    by (induction xs) simp_all
  then show "p \<noteq> pid \<Longrightarrow> ?thesis" by (simp add: set_inactive_def)
qed

lemma set_last_checked_active_rows:
  "filter (\<lambda>r. player_id r = pid \<and> active r \<noteq> 0) (trader_ids s) = [] \<Longrightarrow>
   filter (\<lambda>r. player_id r = pid \<and> active r \<noteq> 0) (trader_ids (set_last_checked p s)) = []"
proof -
  have "filter (\<lambda>r. player_id r = pid \<and> active r \<noteq> 0) xs = [] \<Longrightarrow>
    filter (\<lambda>r. player_id r = pid \<and> active r \<noteq> 0)
      (map (\<lambda>r. if player_id r = p then r\<lparr>last_checked := t\<rparr> else r) xs) = []" for t xs
    by (induction xs) (simp_all split: if_splits)
  then show "filter (\<lambda>r. player_id r = pid \<and> active r \<noteq> 0) (trader_ids s) = [] \<Longrightarrow> ?thesis"
    by (simp add: set_last_checked_def)
qed

lemma set_inactive_active_rows:
  "filter (\<lambda>r. player_id r = pid \<and> active r \<noteq> 0) (trader_ids s) = [] \<Longrightarrow>
   filter (\<lambda>r. player_id r = pid \<and> active r \<noteq> 0) (trader_ids (set_inactive p s)) = []"
proof -
  have "filter (\<lambda>r. player_id r = pid \<and> active r \<noteq> 0) xs = [] \<Longrightarrow>
    filter (\<lambda>r. player_id r = pid \<and> active r \<noteq> 0)
      (map (\<lambda>r. if player_id r = p then r\<lparr>active := 0\<rparr> else r) xs) = []" for xs
    by (induction xs) (simp_all split: if_splits)
  then show "filter (\<lambda>r. player_id r = pid \<and> active r \<noteq> 0) (trader_ids s) = [] \<Longrightarrow> ?thesis"
    by (simp add: set_inactive_def)
qed

lemma set_inactive_own_rows:
  "filter (\<lambda>r. player_id r = pid \<and> active r \<noteq> 0) (trader_ids (set_inactive pid s)) = []"
proof -
  have "filter (\<lambda>r. player_id r = pid \<and> active r \<noteq> 0)
      (map (\<lambda>r. if player_id r = pid then r\<lparr>active := 0\<rparr> else r) xs) = []" for xs
    by (induction xs) simp_all
  then show ?thesis by (simp add: set_inactive_def)
qed

lemma get_player_bazaar_other_rows:
  assumes "p \<noteq> pid"
  shows "filter (\<lambda>r. player_id r = pid) (trader_ids (fst (get_player_bazaar s p resp))) =
         filter (\<lambda>r. player_id r = pid) (trader_ids s)"
proof (cases resp)
  case RequestFailed
  then show ?thesis by (simp add: get_player_bazaar_request_failed)
next
  case (Body data)
  let ?s = "s\<lparr>api_calls := api_calls s @ [p]\<rparr>"
  have a: "filter (\<lambda>r. player_id r = pid) (trader_ids (set_last_checked p ?s)) =
      filter (\<lambda>r. player_id r = pid) (trader_ids s)"
    using set_last_checked_other_rows [OF assms, of ?s] by simp
  have b: "filter (\<lambda>r. player_id r = pid) (trader_ids (set_inactive p (set_last_checked p ?s))) =
      filter (\<lambda>r. player_id r = pid) (trader_ids s)"
    using set_inactive_other_rows [OF assms, of "set_last_checked p ?s"] a by simp
  from get_player_bazaar_state_cases [of s p data] a b Body show ?thesis by auto
qed

lemma get_player_bazaar_inactive_rows:
  assumes "filter (\<lambda>r. player_id r = pid \<and> active r \<noteq> 0) (trader_ids s) = []"
  shows "filter (\<lambda>r. player_id r = pid \<and> active r \<noteq> 0)
           (trader_ids (fst (get_player_bazaar s p resp))) = []"
proof (cases resp)
  case RequestFailed
  with assms show ?thesis by (simp add: get_player_bazaar_request_failed)
next
  case (Body data)
  let ?s = "s\<lparr>api_calls := api_calls s @ [p]\<rparr>"
  from assms have "filter (\<lambda>r. player_id r = pid \<and> active r \<noteq> 0) (trader_ids ?s) = []" by simp
  then have a: "filter (\<lambda>r. player_id r = pid \<and> active r \<noteq> 0)
      (trader_ids (set_last_checked p ?s)) = []"
    by (rule set_last_checked_active_rows)
  then have b: "filter (\<lambda>r. player_id r = pid \<and> active r \<noteq> 0)
      (trader_ids (set_inactive p (set_last_checked p ?s))) = []"
    by (rule set_inactive_active_rows)
  from get_player_bazaar_state_cases [of s p data] a b Body show ?thesis by auto
qed

lemma get_player_bazaar_player_ids:
  "map player_id (trader_ids (fst (get_player_bazaar s p resp))) = map player_id (trader_ids s)"
proof (cases resp)
  case RequestFailed
  then show ?thesis by (simp add: get_player_bazaar_request_failed)
next
  case (Body data)
  from get_player_bazaar_state_cases [of s p data] Body show ?thesis
    by (auto simp: set_last_checked_rows(2) set_inactive_rows(2))
qed

text \<open>A property of the state that every fetch and every flush keeps holds after the loop.\<close>

lemma scan_loop_invariant:
  assumes init: "I s"
    and fetch: "\<And>s p. I s \<Longrightarrow> I (fst (get_player_bazaar s p (api p)))"
    and store: "\<And>s its. I s \<Longrightarrow> I (state_of (store_bazaar_items s its))"
  shows "I (result_state (scan_loop api ps s n m acc))"
proof -
  have "I s \<longrightarrow> I (result_state (scan_loop api ps s n m acc))"
  proof (rule scan_loop_rule [where P = "\<lambda>ps s n m acc r. I s \<longrightarrow> I (result_state r)"])
    fix s n m acc
    show "I s \<longrightarrow> I (result_state (Finished s n m acc))" by simp
  next
    fix p ps s n m acc s1 its s2
    assume g: "get_player_bazaar s p (api p) = (s1, its)"
      and st: "store_bazaar_items s1 (acc @ its) = Inl s2"
    show "I s \<longrightarrow> I (result_state (Raised s2 (n + 1) (m + length its)))"
    proof
      assume "I s"
      from fetch [OF this, of p] g have "I s1" by simp
      from store [OF this, of "acc @ its"] st
      show "I (result_state (Raised s2 (n + 1) (m + length its)))" by simp
    qed
  next
    fix p ps s n m acc s1 its s2
    assume g: "get_player_bazaar s p (api p) = (s1, its)"
      and st: "store_bazaar_items s1 (acc @ its) = Inr s2"
      and ih: "I s2 \<longrightarrow> I (result_state (scan_loop api ps s2 (n + 1) (m + length its) []))"
    show "I s \<longrightarrow> I (result_state (scan_loop api ps s2 (n + 1) (m + length its) []))"
    proof
      assume "I s"
      from fetch [OF this, of p] g have "I s1" by simp
      from store [OF this, of "acc @ its"] st have "I s2" by simp
      with ih show "I (result_state (scan_loop api ps s2 (n + 1) (m + length its) []))" by simp
    qed
  next
    fix p ps s n m acc s1 its
    assume g: "get_player_bazaar s p (api p) = (s1, its)"
      and ih: "I s1 \<longrightarrow> I (result_state (scan_loop api ps s1 (n + 1) (m + length its) (acc @ its)))"
    show "I s \<longrightarrow> I (result_state (scan_loop api ps s1 (n + 1) (m + length its) (acc @ its)))"
    proof
      assume "I s"
      from fetch [OF this, of p] g have "I s1" by simp
      with ih show "I (result_state (scan_loop api ps s1 (n + 1) (m + length its) (acc @ its)))"
        by simp
    qed
  qed
  with init show ?thesis by simp
qed

lemma filter_filter_implied:
  "(\<And>x. P x \<Longrightarrow> Q x) \<Longrightarrow> filter P (filter Q xs) = filter P xs"
  by (induction xs) auto

lemma store_other_seller_rows:
  assumes "pid \<notin> seller_id ` set its"
  shows "seller_rows (state_of (store_bazaar_items s its)) pid = seller_rows s pid"
proof -
  from store_bazaar_items_rows [of s its] obtain rows where
    l: "listings (state_of (store_bazaar_items s its)) =
          filter (\<lambda>r. seller_id (l_item r) \<notin> seller_id ` set its) (listings s) @ rows"
    and m: "map l_item rows = takeWhile listing_insertable its"
    by blast
  have sub: "set (map l_item rows) \<subseteq> set its"
    unfolding m by (auto dest: set_takeWhileD)
  have "seller_id (l_item r) \<noteq> pid" if "r \<in> set rows" for r
  proof -
    from that have "l_item r \<in> set (map l_item rows)" by simp
    with sub have "l_item r \<in> set its" by blast
    with assms show ?thesis by blast
  qed
  then have new: "filter (\<lambda>r. seller_id (l_item r) = pid) rows = []"
    by (simp add: filter_empty_conv)
  have old: "filter (\<lambda>r. seller_id (l_item r) = pid)
        (filter (\<lambda>r. seller_id (l_item r) \<notin> seller_id ` set its) (listings s)) =
      filter (\<lambda>r. seller_id (l_item r) = pid) (listings s)"
  proof (rule filter_filter_implied)
    fix r :: listing_row
    assume "seller_id (l_item r) = pid"
    with assms show "seller_id (l_item r) \<notin> seller_id ` set its" by simp
  qed
  show ?thesis by (simp add: seller_rows_def l new old del: filter_filter)
qed

lemma get_player_bazaar_seller_rows:
  "seller_rows (fst (get_player_bazaar s p resp)) pid = seller_rows s pid"
  by (simp add: seller_rows_def get_player_bazaar_unchanged)

text \<open>A seller whose fetch never yields a listing keeps its rows through the loop.\<close>

lemma scan_loop_seller_rows:
  assumes nofetch: "\<And>s. snd (get_player_bazaar s pid (api pid)) = []"
  shows "pid \<notin> seller_id ` set acc \<longrightarrow>
           seller_rows (result_state (scan_loop api ps s n m acc)) pid = seller_rows s pid \<and>
           (case scan_loop api ps s n m acc of
              Finished s' n' m' acc' \<Rightarrow> pid \<notin> seller_id ` set acc'
            | Raised s' n' m' \<Rightarrow> True)"
proof (rule scan_loop_rule [where P = "\<lambda>ps s n m acc r.
    pid \<notin> seller_id ` set acc \<longrightarrow>
      seller_rows (result_state r) pid = seller_rows s pid \<and>
      (case r of Finished s' n' m' acc' \<Rightarrow> pid \<notin> seller_id ` set acc' | Raised s' n' m' \<Rightarrow> True)"])
  fix s n m acc
  show "pid \<notin> seller_id ` set acc \<longrightarrow>
      seller_rows (result_state (Finished s n m acc)) pid = seller_rows s pid \<and>
      (case Finished s n m acc of
         Finished s' n' m' acc' \<Rightarrow> pid \<notin> seller_id ` set acc' | Raised s' n' m' \<Rightarrow> True)"
    by simp
next
  fix p ps s n m acc s1 its s2
  assume g: "get_player_bazaar s p (api p) = (s1, its)"
    and st: "store_bazaar_items s1 (acc @ its) = Inl s2"
  show "pid \<notin> seller_id ` set acc \<longrightarrow>
      seller_rows (result_state (Raised s2 (n + 1) (m + length its))) pid = seller_rows s pid \<and>
      (case Raised s2 (n + 1) (m + length its) of
         Finished s' n' m' acc' \<Rightarrow> pid \<notin> seller_id ` set acc' | Raised s' n' m' \<Rightarrow> True)"
  proof
    assume acc: "pid \<notin> seller_id ` set acc"
    have its: "pid \<notin> seller_id ` set its"
      using get_player_bazaar_seller [of _ s p "api p"] nofetch [of s] g by (cases "p = pid") auto
    from get_player_bazaar_seller_rows [of s p "api p" pid] g
    have "seller_rows s1 pid = seller_rows s pid" by simp
    moreover from acc its have "pid \<notin> seller_id ` set (acc @ its)" by auto
    from store_other_seller_rows [OF this, of s1] st
    have "seller_rows s2 pid = seller_rows s1 pid" by simp
    ultimately show "seller_rows (result_state (Raised s2 (n + 1) (m + length its))) pid =
        seller_rows s pid \<and>
      (case Raised s2 (n + 1) (m + length its) of
         Finished s' n' m' acc' \<Rightarrow> pid \<notin> seller_id ` set acc' | Raised s' n' m' \<Rightarrow> True)"
      by simp
  qed
next
  fix p ps s n m acc s1 its s2
  assume g: "get_player_bazaar s p (api p) = (s1, its)"
    and st: "store_bazaar_items s1 (acc @ its) = Inr s2"
  let ?r = "scan_loop api ps s2 (n + 1) (m + length its) []"
  assume ih: "pid \<notin> seller_id ` set [] \<longrightarrow>
      seller_rows (result_state ?r) pid = seller_rows s2 pid \<and>
      (case ?r of Finished s' n' m' acc' \<Rightarrow> pid \<notin> seller_id ` set acc' | Raised s' n' m' \<Rightarrow> True)"
  show "pid \<notin> seller_id ` set acc \<longrightarrow>
      seller_rows (result_state ?r) pid = seller_rows s pid \<and>
      (case ?r of Finished s' n' m' acc' \<Rightarrow> pid \<notin> seller_id ` set acc' | Raised s' n' m' \<Rightarrow> True)"
  proof
    assume acc: "pid \<notin> seller_id ` set acc"
    have its: "pid \<notin> seller_id ` set its"
      using get_player_bazaar_seller [of _ s p "api p"] nofetch [of s] g by (cases "p = pid") auto
    from get_player_bazaar_seller_rows [of s p "api p" pid] g
    have "seller_rows s1 pid = seller_rows s pid" by simp
    moreover from acc its have "pid \<notin> seller_id ` set (acc @ its)" by auto
    from store_other_seller_rows [OF this, of s1] st
    have "seller_rows s2 pid = seller_rows s1 pid" by simp
    ultimately show "seller_rows (result_state ?r) pid = seller_rows s pid \<and>
      (case ?r of Finished s' n' m' acc' \<Rightarrow> pid \<notin> seller_id ` set acc' | Raised s' n' m' \<Rightarrow> True)"
      using ih by simp
  qed
next
  fix p ps s n m acc s1 its
  assume g: "get_player_bazaar s p (api p) = (s1, its)"
  let ?r = "scan_loop api ps s1 (n + 1) (m + length its) (acc @ its)"
  assume ih: "pid \<notin> seller_id ` set (acc @ its) \<longrightarrow>
      seller_rows (result_state ?r) pid = seller_rows s1 pid \<and>
      (case ?r of Finished s' n' m' acc' \<Rightarrow> pid \<notin> seller_id ` set acc' | Raised s' n' m' \<Rightarrow> True)"
  show "pid \<notin> seller_id ` set acc \<longrightarrow>
      seller_rows (result_state ?r) pid = seller_rows s pid \<and>
      (case ?r of Finished s' n' m' acc' \<Rightarrow> pid \<notin> seller_id ` set acc' | Raised s' n' m' \<Rightarrow> True)"
  proof
    assume acc: "pid \<notin> seller_id ` set acc"
    have its: "pid \<notin> seller_id ` set its"
      using get_player_bazaar_seller [of _ s p "api p"] nofetch [of s] g by (cases "p = pid") auto
    from get_player_bazaar_seller_rows [of s p "api p" pid] g
    have "seller_rows s1 pid = seller_rows s pid" by simp
    moreover from acc its have "pid \<notin> seller_id ` set (acc @ its)" by auto
    ultimately show "seller_rows (result_state ?r) pid = seller_rows s pid \<and>
      (case ?r of Finished s' n' m' acc' \<Rightarrow> pid \<notin> seller_id ` set acc' | Raised s' n' m' \<Rightarrow> True)"
      using ih by simp
  qed
qed

text \<open>The requests of the loop are a prefix of the players it was given, never empty when
  there is a player.\<close>

lemma scan_loop_api_calls:
  "\<exists>k \<le> length ps. api_calls (result_state (scan_loop api ps s n m acc)) = api_calls s @ take k ps \<and>
      (ps \<noteq> [] \<longrightarrow> 0 < k)"
proof (rule scan_loop_rule [where P = "\<lambda>ps s n m acc r.
    \<exists>k \<le> length ps. api_calls (result_state r) = api_calls s @ take k ps \<and> (ps \<noteq> [] \<longrightarrow> 0 < k)"])
  fix s n m acc
  show "\<exists>k \<le> length []. api_calls (result_state (Finished s n m acc)) = api_calls s @ take k [] \<and>
      ([] \<noteq> [] \<longrightarrow> 0 < k)"
    by simp
next
  fix p ps s n m acc s1 its s2
  assume g: "get_player_bazaar s p (api p) = (s1, its)"
    and st: "store_bazaar_items s1 (acc @ its) = Inl s2"
  from get_player_bazaar_unchanged(7) [of s p "api p"] g
  have "api_calls s1 = api_calls s @ [p]" by simp
  moreover from store_bazaar_items_unchanged(8) [of s1 "acc @ its"] st
  have "api_calls s2 = api_calls s1" by simp
  ultimately have "api_calls (result_state (Raised s2 (n + 1) (m + length its))) =
      api_calls s @ take (Suc 0) (p # ps)"
    by simp
  then show "\<exists>k \<le> length (p # ps).
      api_calls (result_state (Raised s2 (n + 1) (m + length its))) = api_calls s @ take k (p # ps) \<and>
      (p # ps \<noteq> [] \<longrightarrow> 0 < k)"
    by (intro exI [of _ "Suc 0"]) simp
next
  fix p ps s n m acc s1 its s2
  assume g: "get_player_bazaar s p (api p) = (s1, its)"
    and st: "store_bazaar_items s1 (acc @ its) = Inr s2"
  let ?r = "scan_loop api ps s2 (n + 1) (m + length its) []"
  assume ih: "\<exists>k \<le> length ps. api_calls (result_state ?r) = api_calls s2 @ take k ps \<and>
      (ps \<noteq> [] \<longrightarrow> 0 < k)"
  from get_player_bazaar_unchanged(7) [of s p "api p"] g
  have "api_calls s1 = api_calls s @ [p]" by simp
  moreover from store_bazaar_items_unchanged(8) [of s1 "acc @ its"] st
  have "api_calls s2 = api_calls s1" by simp
  ultimately have s2: "api_calls s2 = api_calls s @ [p]" by simp
  from ih obtain k where k: "k \<le> length ps"
    and c: "api_calls (result_state ?r) = api_calls s2 @ take k ps" by blast
  from c s2 have "api_calls (result_state ?r) = api_calls s @ take (Suc k) (p # ps)" by simp
  with k show "\<exists>k \<le> length (p # ps). api_calls (result_state ?r) = api_calls s @ take k (p # ps) \<and>
      (p # ps \<noteq> [] \<longrightarrow> 0 < k)"
    by (intro exI [of _ "Suc k"]) simp
next
  fix p ps s n m acc s1 its
  assume g: "get_player_bazaar s p (api p) = (s1, its)"
  let ?r = "scan_loop api ps s1 (n + 1) (m + length its) (acc @ its)"
  assume ih: "\<exists>k \<le> length ps. api_calls (result_state ?r) = api_calls s1 @ take k ps \<and>
      (ps \<noteq> [] \<longrightarrow> 0 < k)"
  from get_player_bazaar_unchanged(7) [of s p "api p"] g
  have s1: "api_calls s1 = api_calls s @ [p]" by simp
  from ih obtain k where k: "k \<le> length ps"
    and c: "api_calls (result_state ?r) = api_calls s1 @ take k ps" by blast
  from c s1 have "api_calls (result_state ?r) = api_calls s @ take (Suc k) (p # ps)" by simp
  with k show "\<exists>k \<le> length (p # ps). api_calls (result_state ?r) = api_calls s @ take k (p # ps) \<and>
      (p # ps \<noteq> [] \<longrightarrow> 0 < k)"
    by (intro exI [of _ "Suc k"]) simp
qed

lemma scan_loop_contacts_head:
  "q \<in> set (api_calls (result_state (scan_loop api (q # ys) s n m acc)))"
proof -
  from scan_loop_api_calls [of "q # ys" api s n m acc] obtain k where
    "api_calls (result_state (scan_loop api (q # ys) s n m acc)) = api_calls s @ take k (q # ys)"
    and "0 < k" by auto
  then show ?thesis by (cases k) auto
qed

lemma scan_loop_contacts_subset:
  "set (api_calls (result_state (scan_loop api ps s n m acc))) \<subseteq> set (api_calls s) \<union> set ps"
proof -
  from scan_loop_api_calls [of ps api s n m acc] obtain k where
    "api_calls (result_state (scan_loop api ps s n m acc)) = api_calls s @ take k ps"
    by auto
  then show ?thesis using set_take_subset [of k ps] by auto
qed

text \<open>After a fetch that yields nothing the loop goes on to the next player.\<close>

lemma scan_loop_continues:
  assumes nofetch: "\<And>s. snd (get_player_bazaar s pid (api pid)) = []"
  shows "\<forall>xs. ps = xs @ pid # q # ys \<longrightarrow> pid \<notin> set xs \<longrightarrow> length acc < 100 \<longrightarrow>
           pid \<notin> set (api_calls s) \<longrightarrow>
           pid \<in> set (api_calls (result_state (scan_loop api ps s n m acc))) \<longrightarrow>
           q \<in> set (api_calls (result_state (scan_loop api ps s n m acc)))"
proof (rule scan_loop_rule [where P = "\<lambda>ps s n m acc r.
    \<forall>xs. ps = xs @ pid # q # ys \<longrightarrow> pid \<notin> set xs \<longrightarrow> length acc < 100 \<longrightarrow>
      pid \<notin> set (api_calls s) \<longrightarrow> pid \<in> set (api_calls (result_state r)) \<longrightarrow>
      q \<in> set (api_calls (result_state r))"])
  fix s n m acc
  show "\<forall>xs. [] = xs @ pid # q # ys \<longrightarrow> pid \<notin> set xs \<longrightarrow> length acc < 100 \<longrightarrow>
      pid \<notin> set (api_calls s) \<longrightarrow> pid \<in> set (api_calls (result_state (Finished s n m acc))) \<longrightarrow>
      q \<in> set (api_calls (result_state (Finished s n m acc)))"
    by simp
next
  fix p ps s n m acc s1 its s2
  assume g: "get_player_bazaar s p (api p) = (s1, its)" and big: "100 \<le> length (acc @ its)"
    and st: "store_bazaar_items s1 (acc @ its) = Inl s2"
  from get_player_bazaar_unchanged(7) [of s p "api p"] g
  have "api_calls s1 = api_calls s @ [p]" by simp
  moreover from store_bazaar_items_unchanged(8) [of s1 "acc @ its"] st
  have "api_calls s2 = api_calls s1" by simp
  ultimately have c2: "api_calls s2 = api_calls s @ [p]" by simp
  show "\<forall>xs. p # ps = xs @ pid # q # ys \<longrightarrow> pid \<notin> set xs \<longrightarrow> length acc < 100 \<longrightarrow>
      pid \<notin> set (api_calls s) \<longrightarrow>
      pid \<in> set (api_calls (result_state (Raised s2 (n + 1) (m + length its)))) \<longrightarrow>
      q \<in> set (api_calls (result_state (Raised s2 (n + 1) (m + length its))))"
  proof (intro allI impI)
    fix xs
    assume small: "length acc < 100" and new: "pid \<notin> set (api_calls s)"
      and "pid \<in> set (api_calls (result_state (Raised s2 (n + 1) (m + length its))))"
    with c2 have "p = pid" by auto
    with nofetch [of s] g have "its = []" by simp
    with big small have False by simp
    then show "q \<in> set (api_calls (result_state (Raised s2 (n + 1) (m + length its))))" ..
  qed
next
  fix p ps s n m acc s1 its s2
  assume g: "get_player_bazaar s p (api p) = (s1, its)" and big: "100 \<le> length (acc @ its)"
    and st: "store_bazaar_items s1 (acc @ its) = Inr s2"
  let ?r = "scan_loop api ps s2 (n + 1) (m + length its) []"
  assume ih: "\<forall>xs. ps = xs @ pid # q # ys \<longrightarrow> pid \<notin> set xs \<longrightarrow> length [] < 100 \<longrightarrow>
      pid \<notin> set (api_calls s2) \<longrightarrow> pid \<in> set (api_calls (result_state ?r)) \<longrightarrow>
      q \<in> set (api_calls (result_state ?r))"
  from get_player_bazaar_unchanged(7) [of s p "api p"] g
  have "api_calls s1 = api_calls s @ [p]" by simp
  moreover from store_bazaar_items_unchanged(8) [of s1 "acc @ its"] st
  have "api_calls s2 = api_calls s1" by simp
  ultimately have c2: "api_calls s2 = api_calls s @ [p]" by simp
  show "\<forall>xs. p # ps = xs @ pid # q # ys \<longrightarrow> pid \<notin> set xs \<longrightarrow> length acc < 100 \<longrightarrow>
      pid \<notin> set (api_calls s) \<longrightarrow> pid \<in> set (api_calls (result_state ?r)) \<longrightarrow>
      q \<in> set (api_calls (result_state ?r))"
  proof (intro allI impI)
    fix xs
    assume eq: "p # ps = xs @ pid # q # ys" and nx: "pid \<notin> set xs"
      and small: "length acc < 100" and new: "pid \<notin> set (api_calls s)"
      and called: "pid \<in> set (api_calls (result_state ?r))"
    from big small have "its \<noteq> []" by auto
    with nofetch [of s] g have np: "p \<noteq> pid" by auto
    with eq obtain xs' where xs: "xs = p # xs'" and ps: "ps = xs' @ pid # q # ys"
      by (cases xs) auto
    from xs nx have "pid \<notin> set xs'" by simp
    moreover from c2 new np have "pid \<notin> set (api_calls s2)" by simp
    ultimately show "q \<in> set (api_calls (result_state ?r))"
      using ih ps called by simp
  qed
next
  fix p ps s n m acc s1 its
  assume g: "get_player_bazaar s p (api p) = (s1, its)" and lt: "length (acc @ its) < 100"
  let ?r = "scan_loop api ps s1 (n + 1) (m + length its) (acc @ its)"
  assume ih: "\<forall>xs. ps = xs @ pid # q # ys \<longrightarrow> pid \<notin> set xs \<longrightarrow> length (acc @ its) < 100 \<longrightarrow>
      pid \<notin> set (api_calls s1) \<longrightarrow> pid \<in> set (api_calls (result_state ?r)) \<longrightarrow>
      q \<in> set (api_calls (result_state ?r))"
  from get_player_bazaar_unchanged(7) [of s p "api p"] g
  have c1: "api_calls s1 = api_calls s @ [p]" by simp
  show "\<forall>xs. p # ps = xs @ pid # q # ys \<longrightarrow> pid \<notin> set xs \<longrightarrow> length acc < 100 \<longrightarrow>
      pid \<notin> set (api_calls s) \<longrightarrow> pid \<in> set (api_calls (result_state ?r)) \<longrightarrow>
      q \<in> set (api_calls (result_state ?r))"
  proof (intro allI impI)
    fix xs
    assume eq: "p # ps = xs @ pid # q # ys" and nx: "pid \<notin> set xs"
      and new: "pid \<notin> set (api_calls s)"
      and called: "pid \<in> set (api_calls (result_state ?r))"
    show "q \<in> set (api_calls (result_state ?r))"
    proof (cases xs)
      case Nil
      with eq have "ps = q # ys" by simp
      then show ?thesis
        using scan_loop_contacts_head [of q api ys s1 "n + 1" "m + length its" "acc @ its"]
        by (simp del: scan_loop.simps)
    next
      case (Cons x xs')
      with eq have p: "x = p" and ps: "ps = xs' @ pid # q # ys" by simp_all
      from Cons nx p have np: "p \<noteq> pid" and nx': "pid \<notin> set xs'" by auto
      from c1 new np have "pid \<notin> set (api_calls s1)" by simp
      with ih ps nx' lt called show ?thesis by simp
    qed
  qed
qed

lemma set_last_checked_active_map:
  "map active (filter (\<lambda>r. player_id r = pid) (trader_ids (set_last_checked p s))) =
   map active (filter (\<lambda>r. player_id r = pid) (trader_ids s))"
proof -
  have "map active (filter (\<lambda>r. player_id r = pid)
      (map (\<lambda>r. if player_id r = p then r\<lparr>last_checked := t\<rparr> else r) xs)) =
    map active (filter (\<lambda>r. player_id r = pid) xs)" for t xs
    by (induction xs) auto
  then show ?thesis by (simp add: set_last_checked_def)
qed

lemma scan_loop_not_found_inactive:
  assumes "api pid = Body (JObj d)" and "map_of d ''error'' = Some (JObj e)"
    and "map_of e ''code'' = Some (JInt 6)" and "pid \<notin> set (api_calls s)"
  shows "pid \<in> set (api_calls (result_state (scan_loop api ps s n m acc))) \<longrightarrow>
         filter (\<lambda>r. player_id r = pid \<and> active r \<noteq> 0)
           (trader_ids (result_state (scan_loop api ps s n m acc))) = []"
proof (rule scan_loop_invariant [where I = "\<lambda>s. pid \<in> set (api_calls s) \<longrightarrow>
    filter (\<lambda>r. player_id r = pid \<and> active r \<noteq> 0) (trader_ids s) = []"])
  from assms(4) show "pid \<in> set (api_calls s) \<longrightarrow>
      filter (\<lambda>r. player_id r = pid \<and> active r \<noteq> 0) (trader_ids s) = []"
    by simp
next
  fix s :: scanner and p :: int
  assume inv: "pid \<in> set (api_calls s) \<longrightarrow>
      filter (\<lambda>r. player_id r = pid \<and> active r \<noteq> 0) (trader_ids s) = []"
  show "pid \<in> set (api_calls (fst (get_player_bazaar s p (api p)))) \<longrightarrow>
      filter (\<lambda>r. player_id r = pid \<and> active r \<noteq> 0)
        (trader_ids (fst (get_player_bazaar s p (api p)))) = []"
  proof (cases "p = pid")
    case True
    with get_player_bazaar_not_found [OF assms(2,3), of s pid] assms(1)
    show ?thesis by (simp add: set_inactive_own_rows)
  next
    case False
    show ?thesis
    proof
      assume "pid \<in> set (api_calls (fst (get_player_bazaar s p (api p))))"
      with False have "pid \<in> set (api_calls s)"
        by (simp add: get_player_bazaar_unchanged)
      with inv have "filter (\<lambda>r. player_id r = pid \<and> active r \<noteq> 0) (trader_ids s) = []"
        by simp
      then show "filter (\<lambda>r. player_id r = pid \<and> active r \<noteq> 0)
          (trader_ids (fst (get_player_bazaar s p (api p)))) = []"
        by (rule get_player_bazaar_inactive_rows)
    qed
  qed
next
  fix s :: scanner and its :: "listing list"
  assume "pid \<in> set (api_calls s) \<longrightarrow>
      filter (\<lambda>r. player_id r = pid \<and> active r \<noteq> 0) (trader_ids s) = []"
  then show "pid \<in> set (api_calls (state_of (store_bazaar_items s its))) \<longrightarrow>
      filter (\<lambda>r. player_id r = pid \<and> active r \<noteq> 0)
        (trader_ids (state_of (store_bazaar_items s its))) = []"
    by (simp add: store_bazaar_items_unchanged)
qed


lemma scan_loop_active_unchanged:
  assumes "api pid = Body (JObj d)" and "map_of d ''error'' = Some err"
    and "\<forall>e. err = JObj e \<longrightarrow> map_of e ''code'' \<noteq> Some (JInt 6)"
  shows "map active (filter (\<lambda>r. player_id r = pid)
           (trader_ids (result_state (scan_loop api ps s n m acc)))) =
         map active (filter (\<lambda>r. player_id r = pid) (trader_ids s))"
proof (rule scan_loop_invariant [where I = "\<lambda>t.
    map active (filter (\<lambda>r. player_id r = pid) (trader_ids t)) =
    map active (filter (\<lambda>r. player_id r = pid) (trader_ids s))"])
  show "map active (filter (\<lambda>r. player_id r = pid) (trader_ids s)) =
      map active (filter (\<lambda>r. player_id r = pid) (trader_ids s))" ..
next
  fix t :: scanner and its :: "listing list"
  assume "map active (filter (\<lambda>r. player_id r = pid) (trader_ids t)) =
      map active (filter (\<lambda>r. player_id r = pid) (trader_ids s))"
  then show "map active (filter (\<lambda>r. player_id r = pid)
        (trader_ids (state_of (store_bazaar_items t its)))) =
      map active (filter (\<lambda>r. player_id r = pid) (trader_ids s))"
    by (simp add: store_bazaar_items_unchanged)
next
  fix t :: scanner and p :: int
  assume inv: "map active (filter (\<lambda>r. player_id r = pid) (trader_ids t)) =
      map active (filter (\<lambda>r. player_id r = pid) (trader_ids s))"
  show "map active (filter (\<lambda>r. player_id r = pid)
        (trader_ids (fst (get_player_bazaar t p (api p))))) =
      map active (filter (\<lambda>r. player_id r = pid) (trader_ids s))"
  proof (cases "p = pid")
    case False
    then show ?thesis using inv by (simp add: get_player_bazaar_other_rows)
  next
    case True
    from get_player_bazaar_other_error [OF assms(2,3), of t pid] assms(1) True
    have "fst (get_player_bazaar t p (api p)) =
        set_last_checked pid (t\<lparr>api_calls := api_calls t @ [pid]\<rparr>)"
      by simp
    then show ?thesis
      using inv set_last_checked_active_map [of pid pid "t\<lparr>api_calls := api_calls t @ [pid]\<rparr>"]
      by simp
  qed
qed

lemma select_traders_trader_ids:
  "trader_ids s = trader_ids t \<Longrightarrow> select_traders limit s = select_traders limit t"
  by (simp add: select_traders_def)

lemma select_traders_active:
  assumes "p \<in> set (select_traders limit s)"
  shows "\<exists>r \<in> set (trader_ids s). player_id r = p \<and> active r = 1"
proof -
  let ?ids = "map player_id (sort_key (\<lambda>r. case last_checked r of None \<Rightarrow> 0 | Some t \<Rightarrow> Suc t)
                  (filter (\<lambda>r. active r = 1) (trader_ids s)))"
  have "set (select_traders limit s) \<subseteq> set ?ids"
    using set_take_subset [of _ ?ids]
    by (auto simp: select_traders_def Let_def split: option.splits)
  with assms have "p \<in> set ?ids" by blast
  then show ?thesis by auto
qed

text \<open>The state a scan ends in, in terms of the state the loop ends in.\<close>

lemma scan_end_state:
  assumes f: "fetch_items_metadata s catalog = (True, s1)"
    and ids: "select_traders limit (start_scan s1) \<noteq> []"
    and r: "r = scan_loop api (select_traders limit (start_scan s1)) (start_scan s1) 0 0 []"
  shows "trader_ids (snd (scan api catalog limit s)) = trader_ids (result_state r)"
    and "api_calls (snd (scan api catalog limit s)) = api_calls (result_state r)"
    and "listings (snd (scan api catalog limit s)) =
           (case r of
              Raised s3 n m \<Rightarrow> listings s3
            | Finished s3 n m all_items \<Rightarrow>
                if all_items \<noteq> [] then listings (state_of (store_bazaar_items s3 all_items))
                else listings s3)"
proof -
  have sc: "scan api catalog limit s =
    (case r of
       Raised s3 n m \<Rightarrow> (False, fail_scan s3)
     | Finished s3 n m all_items \<Rightarrow>
         (case (if all_items \<noteq> [] then store_bazaar_items s3 all_items else Inr s3) of
            Inl s4 \<Rightarrow> (False, fail_scan s4)
          | Inr s4 \<Rightarrow> (True, end_scan n m s4)))"
    using scan_after_refresh [OF f, of api limit] ids r by simp
  show "trader_ids (snd (scan api catalog limit s)) = trader_ids (result_state r)"
  proof (cases r)
    case (Raised s3 n m)
    with sc show ?thesis by (simp add: fail_scan_unchanged)
  next
    case (Finished s3 n m all_items)
    show ?thesis
    proof (cases "all_items = []")
      case True
      with sc Finished show ?thesis by (simp add: end_scan_unchanged)
    next
      case False
      with sc Finished store_bazaar_items_unchanged(4) [of s3 all_items] show ?thesis
        by (cases "store_bazaar_items s3 all_items")
           (simp_all add: end_scan_unchanged fail_scan_unchanged)
    qed
  qed
  show "api_calls (snd (scan api catalog limit s)) = api_calls (result_state r)"
  proof (cases r)
    case (Raised s3 n m)
    with sc show ?thesis by (simp add: fail_scan_unchanged)
  next
    case (Finished s3 n m all_items)
    show ?thesis
    proof (cases "all_items = []")
      case True
      with sc Finished show ?thesis by (simp add: end_scan_unchanged)
    next
      case False
      with sc Finished store_bazaar_items_unchanged(8) [of s3 all_items] show ?thesis
        by (cases "store_bazaar_items s3 all_items")
           (simp_all add: end_scan_unchanged fail_scan_unchanged)
    qed
  qed
  show "listings (snd (scan api catalog limit s)) =
           (case r of
              Raised s3 n m \<Rightarrow> listings s3
            | Finished s3 n m all_items \<Rightarrow>
                if all_items \<noteq> [] then listings (state_of (store_bazaar_items s3 all_items))
                else listings s3)"
  proof (cases r)
    case (Raised s3 n m)
    with sc show ?thesis by (simp add: fail_scan_unchanged)
  next
    case (Finished s3 n m all_items)
    show ?thesis
    proof (cases "all_items = []")
      case True
      with sc Finished show ?thesis by (simp add: end_scan_unchanged)
    next
      case False
      with sc Finished show ?thesis
        by (cases "store_bazaar_items s3 all_items")
           (simp_all add: end_scan_unchanged fail_scan_unchanged)
    qed
  qed
qed

text \<open>A scan that requested anything got past the catalog refresh and had traders to
  scan.\<close>

lemma scan_contacted:
  assumes "api_calls s = []" and "pid \<in> set (api_calls (snd (scan api catalog limit s)))"
  shows "fetch_items_metadata s catalog = (True, snd (fetch_items_metadata s catalog))"
    and "select_traders limit (start_scan (snd (fetch_items_metadata s catalog))) \<noteq> []"
proof -
  let ?s1 = "snd (fetch_items_metadata s catalog)"
  show f: "fetch_items_metadata s catalog = (True, ?s1)"
  proof (cases "fetch_items_metadata s catalog")
    case (Pair ok s1)
    show ?thesis
    proof (cases ok)
      case True
      with Pair show ?thesis by simp
    next
      case False
      with Pair have "scan api catalog limit s = (False, s1)" by (simp add: scan_refresh_failed)
      with Pair assms fetch_items_metadata_unchanged(7) [of s catalog] show ?thesis by simp
    qed
  qed
  show "select_traders limit (start_scan ?s1) \<noteq> []"
  proof
    assume "select_traders limit (start_scan ?s1) = []"
    with scan_after_refresh [OF f, of api limit]
    have "api_calls (snd (scan api catalog limit s)) = api_calls s"
      by (simp add: end_scan_unchanged start_scan_unchanged fetch_items_metadata_unchanged)
    with assms show False by simp
  qed
qed

end
